theory Spec2Isabelle
  imports Complex_Main "HOL-Library.Word"
begin

section \<open>Exceptions\<close>

text \<open>
  The module \<^verbatim>\<open>morgana/utils.py\<close> catches nothing: an exception raised by the tensor
  library, by the array library or by an \<^verbatim>\<open>assert\<close> leaves the function.  A result is
  therefore a sum, \<open>Inl\<close> carrying the class of the exception that propagates.
\<close>

datatype error =
    RuntimeError    \<comment> \<open>raised by the tensor library (reduction of an empty tensor, bad shape)\<close>
  | ValueError      \<comment> \<open>raised by the array library or by a Python builtin\<close>
  | IndexError      \<comment> \<open>an index outside the indexed axis\<close>
  | AssertionError  \<comment> \<open>a failed \<^verbatim>\<open>assert\<close>\<close>

section \<open>Tensors as nested lists\<close>

text \<open>
  A tensor of shape \<open>[B, T, F]\<close> is a list of \<open>B\<close> rows, each a list of \<open>T\<close> steps, each a
  list of \<open>F\<close> feature values.  An integer tensor of shape \<open>[B, T]\<close> (the repetition
  counts, whose optional trailing axis of size one carries no data) is a list of \<open>B\<close> lists
  of \<open>T\<close> integers.  The counts are 64-bit signed integers in the source.  They are
  integers here, and the one operation of the upsampler that can leave the 64-bit range,
  the row sum, wraps around as the tensor library's does (\<open>wrap64\<close> below).  What the
  machine can store is not modelled: a result stands however long it is.
\<close>

type_synonym 'a tensor3 = "'a list list list"

definition has_shape3 :: "'a tensor3 \<Rightarrow> nat \<Rightarrow> nat \<Rightarrow> nat \<Rightarrow> bool" where
  "has_shape3 t B T F =
     (length t = B \<and> list_all (\<lambda>row. length row = T \<and> list_all (\<lambda>step. length step = F) row) t)"

definition has_shape2 :: "'a list list \<Rightarrow> nat \<Rightarrow> nat \<Rightarrow> bool" where
  "has_shape2 t B T = (length t = B \<and> list_all (\<lambda>row. length row = T) t)"

text \<open>
  \<^verbatim>\<open>tensor.shape[k]\<close>.  A nested list with no row (no step) does not record the sizes of
  the axes below; they read as 0 there, and nothing reads a value along them.
\<close>

definition shape0 :: "'a tensor3 \<Rightarrow> nat" where
  "shape0 t = length t"

definition shape1 :: "'a tensor3 \<Rightarrow> nat" where
  "shape1 t = (case t of [] \<Rightarrow> 0 | row # _ \<Rightarrow> length row)"

definition shape2 :: "'a tensor3 \<Rightarrow> nat" where
  "shape2 t = (case t of (step # _) # _ \<Rightarrow> length step | _ \<Rightarrow> 0)"

section \<open>Library operations used by the upsampler\<close>

text \<open>
  \<^verbatim>\<open>torch.sum(repeats, dim=1)\<close> on 64-bit integers: the sum of each row, reduced to the
  signed 64-bit range.
\<close>

definition wrap64 :: "int \<Rightarrow> int" where
  "wrap64 x = (x + 2 ^ 63) mod 2 ^ 64 - 2 ^ 63"

definition torch_sum_rows :: "int list list \<Rightarrow> int list" where
  "torch_sum_rows t = map (\<lambda>row. wrap64 (sum_list row)) t"

text \<open>\<^verbatim>\<open>torch.max(t).item()\<close>: the largest element; a tensor with no element is refused.\<close>

fun torch_max :: "int list \<Rightarrow> error + int" where
  "torch_max [] = Inl RuntimeError"
| "torch_max (x # xs) = Inr (fold max xs x)"

text \<open>
  \<^verbatim>\<open>repeats.reshape((batch_size, -1))\<close>: the elements in row-major order, cut into
  \<open>batch_size\<close> rows of equal width.  The width is inferred; the library refuses a row
  count of 0 and an element count that the row count does not divide.
\<close>

fun chunks :: "nat \<Rightarrow> nat \<Rightarrow> 'a list \<Rightarrow> 'a list list" where
  "chunks 0 w xs = []"
| "chunks (Suc n) w xs = take w xs # chunks n w (drop w xs)"

definition reshape_rows :: "nat \<Rightarrow> 'a list list \<Rightarrow> error + 'a list list" where
  "reshape_rows batch_size t =
     (let flat = concat t in
      if batch_size = 0 \<or> length flat mod batch_size \<noteq> 0 then Inl RuntimeError
      else Inr (chunks batch_size (length flat div batch_size) flat))"

text \<open>
  \<^verbatim>\<open>np.repeat(a, counts)\<close> on one-axis arrays: element \<open>a[i]\<close> is written \<open>counts[i]\<close>
  times, in order.  A single count serves every element, and is refused when it is
  negative and there is an element to repeat.  Otherwise the two lengths must agree, and
  a negative count is refused.
\<close>

definition np_repeat :: "'a list \<Rightarrow> int list \<Rightarrow> error + 'a list" where
  "np_repeat a counts =
     (if length counts = 1 then
        (if hd counts < 0 \<and> a \<noteq> [] then Inl ValueError
         else Inr (concat (map (replicate (nat (hd counts))) a)))
      else if length counts \<noteq> length a then Inl ValueError
      else if list_ex (\<lambda>c. c < 0) counts then Inl ValueError
      else Inr (concat (map2 (\<lambda>x c. replicate (nat c) x) a counts)))"

text \<open>
  \<^verbatim>\<open>row[:k] = vals\<close> on one-axis arrays.  The slice \<^verbatim>\<open>:k\<close> of a row of length \<open>n\<close>
  holds the first \<open>min n k\<close> positions, and for a negative \<open>k\<close> all but the last \<open>-k\<close>.
  The values must be as many as the slice is long, or be a single value, which then fills
  the slice; anything else is refused.
\<close>

definition slice_len :: "nat \<Rightarrow> int \<Rightarrow> nat" where
  "slice_len n k = (if k < 0 then nat (int n + k) else min n (nat k))"

definition assign_prefix :: "'a list \<Rightarrow> int \<Rightarrow> 'a list \<Rightarrow> error + 'a list" where
  "assign_prefix row k vals =
     (let s = slice_len (length row) k in
      if length vals = s then Inr (vals @ drop s row)
      else if length vals = 1 then Inr (replicate s (hd vals) @ drop s row)
      else Inl ValueError)"

text \<open>\<^verbatim>\<open>xs[i]\<close> with an integer index: a negative index counts from the end.\<close>

definition get_item :: "'a list \<Rightarrow> int \<Rightarrow> error + 'a" where
  "get_item xs i =
     (if 0 \<le> i \<and> i < int (length xs) then Inr (xs ! nat i)
      else if i < 0 \<and> - int (length xs) \<le> i then Inr (xs ! nat (int (length xs) + i))
      else Inl IndexError)"

text \<open>The first exception of a list of results, or all the values.\<close>

fun collect :: "(error + 'a) list \<Rightarrow> error + 'a list" where
  "collect [] = Inr []"
| "collect (r # rs) =
     (case r of
        Inl e \<Rightarrow> Inl e
      | Inr x \<Rightarrow> (case collect rs of Inl e \<Rightarrow> Inl e | Inr xs \<Rightarrow> Inr (x # xs)))"

text \<open>
  Two index arrays are paired position by position.  Where their lengths differ, an array
  of length one is stretched to the other; anything else is refused.
\<close>

definition pair_up :: "'a list \<Rightarrow> 'b list \<Rightarrow> error + ('a \<times> 'b) list" where
  "pair_up xs ys =
     (if length xs = length ys then Inr (zip xs ys)
      else if length xs = 1 then Inr (map (\<lambda>y. (hd xs, y)) ys)
      else if length ys = 1 then Inr (map (\<lambda>x. (x, hd ys)) xs)
      else Inl IndexError)"

text \<open>
  \<^verbatim>\<open>src[batch_idxs, seq_idxs]\<close> with two index arrays of two axes: position \<open>(b, j)\<close> of
  the result is the step \<open>src[batch_idxs[b, j], seq_idxs[b, j]]\<close>.
\<close>

definition gather :: "'a tensor3 \<Rightarrow> int list list \<Rightarrow> int list list \<Rightarrow> error + 'a tensor3" where
  "gather src batch_idxs seq_idxs =
     (case pair_up batch_idxs seq_idxs of
        Inl e \<Rightarrow> Inl e
      | Inr rows \<Rightarrow>
          collect (map (\<lambda>(bs, js).
            (case pair_up bs js of
               Inl e \<Rightarrow> Inl e
             | Inr cells \<Rightarrow>
                 collect (map (\<lambda>(b, j).
                   (case get_item src b of Inl e \<Rightarrow> Inl e | Inr row \<Rightarrow> get_item row j))
                   cells))) rows))"

section \<open>The upsampler\<close>

text \<open>
  The loop of \<^verbatim>\<open>upsample_to_repetitions\<close> over
  \<^verbatim>\<open>enumerate(zip(repeats, reapeated_lens))\<close>: row \<open>b\<close> of the index array receives
  \<^verbatim>\<open>np.repeat(seq_feats_idx, repeat)\<close> in its first \<open>repeated_len\<close> positions.  The right-hand
  side is evaluated first.  The pairs are at most as many as the index array has rows, so
  \<open>b\<close> is a row of it.
\<close>

fun fill_rows :: "int list \<Rightarrow> nat \<Rightarrow> (int list \<times> int) list \<Rightarrow> int list list \<Rightarrow> error + int list list" where
  "fill_rows seq_feats_idx b [] repeated_idxs = Inr repeated_idxs"
| "fill_rows seq_feats_idx b ((repeat, repeated_len) # rest) repeated_idxs =
     (case np_repeat seq_feats_idx repeat of
        Inl e \<Rightarrow> Inl e
      | Inr vals \<Rightarrow>
          (case assign_prefix (repeated_idxs ! b) repeated_len vals of
             Inl e \<Rightarrow> Inl e
           | Inr row \<Rightarrow> fill_rows seq_feats_idx (Suc b) rest (repeated_idxs[b := row])))"

definition upsample_to_repetitions :: "('a::zero) tensor3 \<Rightarrow> int list list \<Rightarrow> error + 'a tensor3" where
  "upsample_to_repetitions sequence_feature repeats =
     (let batch_size = shape0 sequence_feature;
          max_seq_len = shape1 sequence_feature;
          feat_dim = shape2 sequence_feature;
          reapeated_lens = torch_sum_rows repeats
      in case torch_max reapeated_lens of
           Inl e \<Rightarrow> Inl e
         | Inr max_repeated_len \<Rightarrow>
      (case reshape_rows batch_size repeats of
           Inl e \<Rightarrow> Inl e
         | Inr repeats' \<Rightarrow>
      (let padder = replicate feat_dim 0;
           sequence_feature_with_padder = map (\<lambda>row. row @ [padder]) sequence_feature
       in if max_repeated_len < 0 then Inl RuntimeError
          else
      (let batch_idxs = map (\<lambda>b. replicate (nat max_repeated_len) (int b)) [0..<batch_size];
           repeated_idxs = replicate batch_size (replicate (nat max_repeated_len) (- 1));
           seq_feats_idx = map int [0..<max_seq_len]
       in case fill_rows seq_feats_idx 0 (zip repeats' reapeated_lens) repeated_idxs of
            Inl e \<Rightarrow> Inl e
          | Inr repeated_idxs' \<Rightarrow>
              gather sequence_feature_with_padder batch_idxs repeated_idxs'))))"

section \<open>What upsampling is to produce\<close>

text \<open>
  The reference the upsampler is compared with, written from the description of the
  result and not from the code: every step written as often as its count says, in the
  order of the steps, and then padding up to the common length \<open>M\<close>.
\<close>

definition repeat_steps :: "'a list \<Rightarrow> int list \<Rightarrow> 'a list" where
  "repeat_steps steps counts = concat (map2 (\<lambda>x c. replicate (nat c) x) steps counts)"

definition upsampled_row :: "'a list \<Rightarrow> int list \<Rightarrow> nat \<Rightarrow> 'a \<Rightarrow> 'a list" where
  "upsampled_row steps counts M pad =
     repeat_steps steps counts @ replicate (M - nat (sum_list counts)) pad"

text \<open>
  A permutation of the batch rows is the list \<open>p\<close> of the old positions in their new
  order: row \<open>i\<close> of the permuted batch is row \<open>p ! i\<close> of the batch.
\<close>

definition is_permutation :: "nat list \<Rightarrow> nat \<Rightarrow> bool" where
  "is_permutation p B = (distinct p \<and> set p = {0..<B})"

definition permute_rows :: "nat list \<Rightarrow> 'a list \<Rightarrow> 'a list" where
  "permute_rows p xs = map (\<lambda>i. xs ! i) p"

section \<open>The string codec\<close>

text \<open>
  A Python string is a \<open>string\<close>, a character its code point, so the embedding covers the
  code points below 256.  The array built by \<^verbatim>\<open>string_to_ascii\<close> has element type
  \<^verbatim>\<open>np.int8\<close>: a code is an \<open>8 word\<close>, read as a signed number by \<open>sint\<close>.  A code point
  above 127 does not fit; the array library of the time of the source keeps its low eight
  bits, which is what \<open>word_of_nat\<close> does.  No claim below depends on it.
\<close>

type_synonym int8 = "8 word"

text \<open>\<^verbatim>\<open>listify\<close>: an argument that is not a list (or tuple) becomes a list of one item.\<close>

datatype 'a object_or_list = Single 'a | Several "'a list"

fun listify :: "'a object_or_list \<Rightarrow> 'a list" where
  "listify (Single x) = [x]"
| "listify (Several xs) = xs"

text \<open>The builtin \<^verbatim>\<open>max\<close> over a sequence: an empty sequence is refused.\<close>

fun py_max :: "int list \<Rightarrow> error + int" where
  "py_max [] = Inl ValueError"
| "py_max (x # xs) = Inr (fold max xs x)"

text \<open>\<^verbatim>\<open>ord\<close>, and the store of the code into the \<^verbatim>\<open>int8\<close> array.\<close>

definition ord :: "char \<Rightarrow> nat" where
  "ord c = of_char c"

definition to_int8 :: "nat \<Rightarrow> int8" where
  "to_int8 n = word_of_nat n"

text \<open>
  The loop of \<^verbatim>\<open>string_to_ascii\<close> over \<^verbatim>\<open>enumerate(strings)\<close>: row \<open>i\<close> of the array
  receives the codes of the line in its first \<open>len(line)\<close> positions.
\<close>

fun encode_lines :: "nat \<Rightarrow> string list \<Rightarrow> int8 list list \<Rightarrow> error + int8 list list" where
  "encode_lines i [] encoded = Inr encoded"
| "encode_lines i (line # rest) encoded =
     (let ascii = map ord line in
      case assign_prefix (encoded ! i) (int (length line)) (map to_int8 ascii) of
        Inl e \<Rightarrow> Inl e
      | Inr row \<Rightarrow> encode_lines (Suc i) rest (encoded[i := row]))"

text \<open>
  \<^verbatim>\<open>string_to_ascii(strings, max_len=None)\<close>.  \<^verbatim>\<open>np.zeros\<close> refuses a negative width.
\<close>

definition string_to_ascii :: "string object_or_list \<Rightarrow> int option \<Rightarrow> error + int8 list list" where
  "string_to_ascii strings_arg max_len =
     (let strings = listify strings_arg;
          num_lines = length strings
      in case (case max_len of
                 None \<Rightarrow> py_max (map (\<lambda>line. int (length line)) strings)
               | Some m \<Rightarrow> Inr m) of
           Inl e \<Rightarrow> Inl e
         | Inr max_num_chars \<Rightarrow>
             if max_num_chars < 0 then Inl ValueError
             else encode_lines 0 strings
                    (replicate num_lines (replicate (nat max_num_chars) 0)))"

text \<open>\<^verbatim>\<open>chr\<close> of an array element: a negative code is refused.\<close>

definition py_chr :: "int8 \<Rightarrow> error + char" where
  "py_chr code = (if sint code < 0 then Inl ValueError else Inr (char_of (nat (sint code))))"

text \<open>
  \<^verbatim>\<open>ascii_to_string\<close>: every code of a row becomes its character, the characters equal
  to \<^verbatim>\<open>chr(0)\<close> are filtered out, and the rest is joined, one string per row.
\<close>

definition ascii_to_string :: "int8 list list \<Rightarrow> error + string list" where
  "ascii_to_string ascii =
     collect (map (\<lambda>codes.
        (case collect (map py_chr codes) of
           Inl e \<Rightarrow> Inl e
         | Inr chars \<Rightarrow> Inr (filter (\<lambda>s. s \<noteq> char_of (0 :: nat)) chars))) ascii)"

text \<open>
  The row that encoding is to produce for one line in an array of width \<open>W\<close>: the codes
  of its characters, then zeros.
\<close>

definition encoded_row :: "nat \<Rightarrow> string \<Rightarrow> int8 list" where
  "encoded_row W line = map (\<lambda>c. to_int8 (ord c)) line @ replicate (W - length line) 0"

section \<open>The exponential moving average\<close>

text \<open>
  \<^verbatim>\<open>ExponentialMovingAverage\<close> updates tensors in place, and its shadow holds the very
  tensors of the averaged model (\<^verbatim>\<open>param.data\<close>, not a clone).  Tensors therefore live in
  a store, addressed by their identity: two references to one tensor are one address.
  A parameter tensor is the list of its elements, a tensor of one axis; the elements are
  real numbers, so the arithmetic is exact.
\<close>

type_synonym addr = nat
type_synonym tensor = "real list"
type_synonym store = "addr \<Rightarrow> tensor"

record param =
  data :: addr
  requires_grad :: bool

text \<open>A model: its identity (what \<^verbatim>\<open>is\<close> compares) and \<^verbatim>\<open>named_parameters()\<close>, in order.\<close>

record nn_module =
  ident :: nat
  named_parameters :: "(string \<times> param) list"

record ExponentialMovingAverage =
  model :: nn_module
  decay :: real
  shadow :: "string \<rightharpoonup> addr"

text \<open>
  Elementwise arithmetic of the tensor library on tensors of one axis.  \<^verbatim>\<open>a - b\<close> takes
  operands of one length, or stretches an operand of length one; other lengths are
  refused.  \<^verbatim>\<open>a -= b\<close> writes into \<open>a\<close>, so the result must have the length of \<open>a\<close>.
\<close>

definition tensor_sub :: "tensor \<Rightarrow> tensor \<Rightarrow> error + tensor" where
  "tensor_sub a b =
     (if length a = length b then Inr (map2 (-) a b)
      else if length b = 1 then Inr (map (\<lambda>v. v - hd b) a)
      else if length a = 1 then Inr (map (\<lambda>v. hd a - v) b)
      else Inl RuntimeError)"

definition tensor_scale :: "real \<Rightarrow> tensor \<Rightarrow> tensor" where
  "tensor_scale c a = map (\<lambda>v. c * v) a"

definition tensor_isub :: "tensor \<Rightarrow> tensor \<Rightarrow> error + tensor" where
  "tensor_isub a b =
     (if length a = length b then Inr (map2 (-) a b)
      else if length b = 1 then Inr (map (\<lambda>v. v - hd b) a)
      else Inl RuntimeError)"

text \<open>
  \<^verbatim>\<open>__init__\<close>: the shadow maps the name of every parameter of the model that requires a
  gradient to the tensor of that parameter.
\<close>

definition ema_init :: "nn_module \<Rightarrow> real \<Rightarrow> ExponentialMovingAverage" where
  "ema_init m d =
     \<lparr>model = m, decay = d,
      shadow = fold (\<lambda>(name, p) sh. if requires_grad p then sh(name \<mapsto> data p) else sh)
                 (named_parameters m) Map.empty\<rparr>"

text \<open>
  \<^verbatim>\<open>_update_param(name, x)\<close>, with \<open>x\<close> the tensor passed in.  The result is the exception
  that leaves the method, if any, and the store as the method leaves it.
\<close>

definition update_param :: "ExponentialMovingAverage \<Rightarrow> string \<Rightarrow> addr \<Rightarrow> store \<Rightarrow> error option \<times> store" where
  "update_param self name x h =
     (case shadow self name of
        None \<Rightarrow> (Some AssertionError, h)
      | Some a \<Rightarrow>
          (case tensor_sub (h a) (h x) of
             Inl e \<Rightarrow> (Some e, h)
           | Inr update_delta \<Rightarrow>
               (case tensor_isub (h a) (tensor_scale (1 - decay self) update_delta) of
                  Inl e \<Rightarrow> (Some e, h)
                | Inr v \<Rightarrow> (None, h(a := v)))))"

text \<open>The loop of \<^verbatim>\<open>update_params\<close> over \<^verbatim>\<open>other_model.named_parameters()\<close>.\<close>

fun update_each :: "ExponentialMovingAverage \<Rightarrow> (string \<times> param) list \<Rightarrow> store \<Rightarrow> error option \<times> store" where
  "update_each self [] h = (None, h)"
| "update_each self ((name, p) # rest) h =
     (if shadow self name \<noteq> None then
        (case update_param self name (data p) h of
           (Some e, h') \<Rightarrow> (Some e, h')
         | (None, h') \<Rightarrow> update_each self rest h')
      else update_each self rest h)"

definition update_params :: "ExponentialMovingAverage \<Rightarrow> nn_module \<Rightarrow> store \<Rightarrow> error option \<times> store" where
  "update_params self other_model h =
     (if ident other_model = ident (model self) then (Some AssertionError, h)
      else update_each self (named_parameters other_model) h)"

text \<open>The update the documentation of \<^verbatim>\<open>_update_param\<close> states, element by element.\<close>

definition ema_formula :: "real \<Rightarrow> tensor \<Rightarrow> tensor \<Rightarrow> tensor" where
  "ema_formula d s x = map2 (\<lambda>sv xv. d * sv + (1 - d) * xv) s x"

text \<open>The tensors of the parameters of a model.\<close>

definition tensors :: "nn_module \<Rightarrow> addr set" where
  "tensors m = (\<lambda>(name, p). data p) ` set (named_parameters m)"

section \<open>Properties of the library operations\<close>

lemma torch_max_Max:
  assumes "xs \<noteq> []"
  shows "torch_max xs = Inr (Max (set xs))"
proof (cases xs)
  case Nil
  with assms show ?thesis by simp
next
  case (Cons x ys)
  then show ?thesis using Max.set_eq_fold [of x ys] by simp
qed

lemma chunks_concat:
  "list_all (\<lambda>row. length row = w) t \<Longrightarrow> chunks (length t) w (concat t) = t"
  by (induction t) simp_all

lemma length_concat_uniform:
  "list_all (\<lambda>row. length row = w) t \<Longrightarrow> length (concat t) = length t * w"
  by (induction t) simp_all

lemma reshape_rows_aligned:
  assumes "has_shape2 t B T" and "0 < B"
  shows "reshape_rows B t = Inr t"
proof -
  from assms have len: "length t = B" and rows: "list_all (\<lambda>row. length row = T) t"
    by (simp_all add: has_shape2_def)
  have flat: "length (concat t) = B * T"
    using length_concat_uniform [OF rows] len by simp
  have "chunks B T (concat t) = t"
    using chunks_concat [OF rows] len by simp
  with flat assms(2) show ?thesis
    by (simp add: reshape_rows_def)
qed

lemma np_repeat_ok:
  assumes "length counts = length a" and "list_all (\<lambda>c. 0 \<le> c) counts"
  shows "np_repeat a counts = Inr (repeat_steps a counts)"
proof (cases "length counts = 1")
  case True
  then obtain c where c: "counts = [c]" by (cases counts) auto
  with assms obtain x where a: "a = [x]" by (cases a) auto
  from assms c have "0 \<le> c" by simp
  with c a show ?thesis by (simp add: np_repeat_def repeat_steps_def)
next
  case False
  from assms(2) have "\<not> list_ex (\<lambda>c. c < 0) counts"
    by (auto simp: list_all_iff list_ex_iff)
  with False assms(1) show ?thesis by (simp add: np_repeat_def repeat_steps_def)
qed

lemma length_repeat_steps:
  "length steps = length counts \<Longrightarrow> list_all (\<lambda>c. 0 \<le> c) counts \<Longrightarrow>
   length (repeat_steps steps counts) = nat (sum_list counts)"
  unfolding repeat_steps_def
proof (induction steps counts rule: list_induct2)
  case Nil
  then show ?case by simp
next
  case (Cons x xs c cs)
  then have "0 \<le> c" "0 \<le> sum_list cs"
    by (auto simp: list_all_iff intro: sum_list_nonneg)
  with Cons show ?case by (simp add: nat_add_distrib)
qed

lemma map_repeat_steps:
  "map f (repeat_steps xs cs) = repeat_steps (map f xs) cs"
  unfolding repeat_steps_def
  by (induction xs arbitrary: cs) (simp, case_tac cs, simp_all)

lemma set_repeat_steps: "set (repeat_steps xs cs) \<subseteq> set xs"
  unfolding repeat_steps_def
  by (induction xs arbitrary: cs) (simp, case_tac cs, auto)

lemma assign_prefix_ok:
  assumes "length vals = nat k" and "0 \<le> k" and "nat k \<le> length row"
  shows "assign_prefix row k vals = Inr (vals @ drop (nat k) row)"
  using assms by (simp add: assign_prefix_def slice_len_def min_def)

lemma collect_map_Inr:
  "(\<And>x. x \<in> set xs \<Longrightarrow> f x = Inr (g x)) \<Longrightarrow> collect (map f xs) = Inr (map g xs)"
  by (induction xs) simp_all

lemma zip_replicate_left:
  "length ys = n \<Longrightarrow> zip (replicate n x) ys = map (Pair x) ys"
  by (induction ys arbitrary: n) auto

lemma fill_rows_ok:
  assumes "length idx = T"
    and "list_all (\<lambda>r. length r = T \<and> list_all (\<lambda>c. 0 \<le> c) r \<and> nat (sum_list r) \<le> M) rs"
    and "length pre = b"
  shows "fill_rows idx b (zip rs (map sum_list rs)) (pre @ replicate (length rs) (replicate M (- 1)))
         = Inr (pre @ map (\<lambda>r. upsampled_row idx r M (- 1)) rs)"
  using assms(2,3)
proof (induction rs arbitrary: pre b)
  case Nil
  then show ?case by simp
next
  case (Cons r rs)
  let ?blank = "replicate M (- 1 :: int)"
  from Cons.prems have r: "length r = T" "list_all (\<lambda>c. 0 \<le> c) r" "nat (sum_list r) \<le> M"
    and rs: "list_all (\<lambda>r. length r = T \<and> list_all (\<lambda>c. 0 \<le> c) r \<and> nat (sum_list r) \<le> M) rs"
    by simp_all
  have nonneg: "0 \<le> sum_list r"
    using r(2) by (auto simp: list_all_iff intro: sum_list_nonneg)
  have rep: "np_repeat idx r = Inr (repeat_steps idx r)"
    using np_repeat_ok [of r idx] r assms(1) by simp
  have len: "length (repeat_steps idx r) = nat (sum_list r)"
    using length_repeat_steps [of idx r] r assms(1) by simp
  have nth: "(pre @ ?blank # replicate (length rs) ?blank) ! b = ?blank"
    using Cons.prems(2) by (simp add: nth_append)
  have asg: "assign_prefix ?blank (sum_list r) (repeat_steps idx r) = Inr (upsampled_row idx r M (- 1))"
    using assign_prefix_ok [of "repeat_steps idx r" "sum_list r" ?blank] len nonneg r(3)
    by (simp add: upsampled_row_def)
  have upd: "(pre @ ?blank # replicate (length rs) ?blank)[b := upsampled_row idx r M (- 1)]
             = (pre @ [upsampled_row idx r M (- 1)]) @ replicate (length rs) ?blank"
    using Cons.prems(2) by (simp add: list_update_append)
  have "fill_rows idx (Suc b) (zip rs (map sum_list rs))
          ((pre @ [upsampled_row idx r M (- 1)]) @ replicate (length rs) ?blank)
        = Inr ((pre @ [upsampled_row idx r M (- 1)]) @ map (\<lambda>r. upsampled_row idx r M (- 1)) rs)"
    using Cons.IH [OF rs, of "pre @ [upsampled_row idx r M (- 1)]" "Suc b"] Cons.prems(2) by simp
  with rep nth asg upd show ?case by simp
qed

lemma get_item_nat:
  "i < length xs \<Longrightarrow> get_item xs (int i) = Inr (xs ! i)"
  by (simp add: get_item_def)

lemma get_item_last:
  "get_item (xs @ [x]) (- 1) = Inr x"
  by (simp add: get_item_def nth_append)

lemma gather_row:
  assumes "b < length sf" and "length (sf ! b) = T" and "length r = T"
    and "list_all (\<lambda>c. 0 \<le> c) r" and "nat (sum_list r) \<le> M"
  shows "collect (map2 (\<lambda>b j.
            (case get_item (map (\<lambda>row. row @ [pad]) sf) b of Inl e \<Rightarrow> Inl e | Inr row \<Rightarrow> get_item row j))
            (replicate M (int b)) (upsampled_row (map int [0..<T]) r M (- 1)))
         = Inr (upsampled_row (sf ! b) r M pad)"
proof -
  let ?idx = "map int [0..<T]"
  let ?row = "sf ! b @ [pad]"
  let ?g = "\<lambda>j::int. ?row ! nat (if j < 0 then int (length ?row) + j else j)"
  have lenidx: "length (repeat_steps ?idx r) = nat (sum_list r)"
    using length_repeat_steps [of ?idx r] assms(3,4) by simp
  have len: "length (upsampled_row ?idx r M (- 1)) = M"
    using lenidx assms(5) by (simp add: upsampled_row_def)
  have src: "get_item (map (\<lambda>row. row @ [pad]) sf) (int b) = Inr ?row"
    using get_item_nat [of b "map (\<lambda>row. row @ [pad]) sf"] assms(1) by simp
  have item: "get_item ?row j = Inr (?g j)" if "j \<in> set (upsampled_row ?idx r M (- 1))" for j
  proof -
    from that have "j \<in> set ?idx \<or> j = - 1"
      using set_repeat_steps [of ?idx r] by (auto simp: upsampled_row_def)
    then show ?thesis
      using assms(2) by (auto simp: get_item_def)
  qed
  have "map ?g ?idx = map (\<lambda>i. sf ! b ! i) [0..<T]"
    by (simp add: nth_append assms(2))
  also have "\<dots> = sf ! b"
    using assms(2) map_nth [of "sf ! b"] by simp
  finally have mapidx: "map ?g ?idx = sf ! b" .
  have pad: "?g (- 1) = pad"
    by (simp add: nth_append assms(2))
  have "map ?g (upsampled_row ?idx r M (- 1)) = upsampled_row (sf ! b) r M pad"
    unfolding upsampled_row_def by (simp only: map_append map_repeat_steps mapidx map_replicate pad)
  moreover have "collect (map (\<lambda>j. get_item ?row j) (upsampled_row ?idx r M (- 1)))
                 = Inr (map ?g (upsampled_row ?idx r M (- 1)))"
    by (rule collect_map_Inr) (rule item)
  ultimately show ?thesis
    using zip_replicate_left [OF len, of "int b"] src by (simp add: comp_def)
qed

lemma map2_map_same:
  "map2 F (map f xs) (map g xs) = map (\<lambda>x. F (f x) (g x)) xs"
  by (induction xs) simp_all

lemma gather_one_shape:
  assumes "list_all2 (\<lambda>bs js. length bs = length js) batch_idxs seq_idxs"
  shows "gather src batch_idxs seq_idxs =
         collect (map2 (\<lambda>bs js. collect (map2 (\<lambda>b j.
            (case get_item src b of Inl e \<Rightarrow> Inl e | Inr row \<Rightarrow> get_item row j)) bs js))
            batch_idxs seq_idxs)"
proof -
  from assms have len: "length batch_idxs = length seq_idxs"
    by (rule list_all2_lengthD)
  have cell: "(case pair_up bs js of
                 Inl e \<Rightarrow> Inl e
               | Inr cells \<Rightarrow>
                   collect (map (\<lambda>(b, j).
                     (case get_item src b of Inl e \<Rightarrow> Inl e | Inr row \<Rightarrow> get_item row j))
                     cells))
              = collect (map2 (\<lambda>b j.
                  (case get_item src b of Inl e \<Rightarrow> Inl e | Inr row \<Rightarrow> get_item row j)) bs js)"
    if "(bs, js) \<in> set (zip batch_idxs seq_idxs)" for bs js
  proof -
    from assms that have "length bs = length js"
      by (auto simp: list_all2_iff)
    then show ?thesis by (simp add: pair_up_def)
  qed
  have outer: "pair_up batch_idxs seq_idxs = Inr (zip batch_idxs seq_idxs)"
    using len by (simp add: pair_up_def)
  have inner: "map (\<lambda>(bs, js).
            (case pair_up bs js of
               Inl e \<Rightarrow> Inl e
             | Inr cells \<Rightarrow>
                 collect (map (\<lambda>(b, j).
                   (case get_item src b of Inl e \<Rightarrow> Inl e | Inr row \<Rightarrow> get_item row j))
                   cells))) (zip batch_idxs seq_idxs)
        = map2 (\<lambda>bs js. collect (map2 (\<lambda>b j.
            (case get_item src b of Inl e \<Rightarrow> Inl e | Inr row \<Rightarrow> get_item row j)) bs js))
            batch_idxs seq_idxs"
    by (rule map_cong [OF refl]) (use cell in auto)
  show ?thesis
    unfolding gather_def outer sum.case inner by (rule refl)
qed

lemma slice_len_le: "slice_len n k \<le> n"
  unfolding slice_len_def by (cases "k < 0") simp_all

lemma assign_prefix_too_long:
  assumes "length row < length vals" and "1 < length vals"
  shows "assign_prefix row k vals = Inl ValueError"
  using assms slice_len_le [of "length row" k]
  by (simp add: assign_prefix_def Let_def)

lemma wrap64_id:
  assumes "- (2 ^ 63) \<le> x" and "x < 2 ^ 63"
  shows "wrap64 x = x"
proof -
  from assms have "0 \<le> x + 2 ^ 63" and "x + 2 ^ 63 < 2 ^ 64" by simp_all
  then have "(x + 2 ^ 63) mod 2 ^ 64 = x + 2 ^ 63" by (rule mod_pos_pos_trivial)
  then show ?thesis by (simp add: wrap64_def)
qed

lemma wrap64_less: "wrap64 x < 2 ^ 63"
proof -
  have "(x + 2 ^ 63) mod 2 ^ 64 < (2 ^ 64 :: int)" by simp
  then show ?thesis by (simp add: wrap64_def)
qed

section \<open>Properties of the upsampler\<close>

lemma shape0_eq: "has_shape3 sf B T F \<Longrightarrow> shape0 sf = B"
  by (simp add: has_shape3_def shape0_def)

lemma shape1_eq: "has_shape3 sf B T F \<Longrightarrow> 0 < B \<Longrightarrow> shape1 sf = T"
  by (cases sf) (simp_all add: has_shape3_def shape1_def)

lemma shape2_eq: "has_shape3 sf B T F \<Longrightarrow> 0 < B \<Longrightarrow> 0 < T \<Longrightarrow> shape2 sf = F"
  by (cases sf; cases "hd sf") (auto simp: has_shape3_def shape2_def)

lemma torch_sum_rows_exact:
  assumes "list_all (list_all (\<lambda>c. 0 \<le> c)) reps" and "list_all (\<lambda>r. sum_list r < 2 ^ 63) reps"
  shows "torch_sum_rows reps = map sum_list reps"
  unfolding torch_sum_rows_def
proof (rule map_cong [OF refl])
  fix r assume r: "r \<in> set reps"
  with assms(1) have "0 \<le> sum_list r"
    by (auto simp: list_all_iff intro: sum_list_nonneg)
  moreover from r assms(2) have "sum_list r < 2 ^ 63" by (simp add: list_all_iff)
  ultimately show "wrap64 (sum_list r) = sum_list r" by (intro wrap64_id) simp_all
qed

lemma Max_sums_bounds:
  assumes "reps \<noteq> []" and "list_all (list_all (\<lambda>c. 0 \<le> c)) reps"
  shows "0 \<le> Max (set (map sum_list reps))"
    and "r \<in> set reps \<Longrightarrow> nat (sum_list r) \<le> nat (Max (set (map sum_list reps)))"
proof -
  have fin: "finite (set (map sum_list reps))" by simp
  have le: "sum_list r \<le> Max (set (map sum_list reps))" if "r \<in> set reps" for r
    using that by (intro Max_ge) auto
  from assms(1) obtain r0 where r0: "r0 \<in> set reps" by (cases reps) auto
  with assms(2) have "0 \<le> sum_list r0"
    by (auto simp: list_all_iff intro: sum_list_nonneg)
  with le [OF r0] show "0 \<le> Max (set (map sum_list reps))" by simp
  show "r \<in> set reps \<Longrightarrow> nat (sum_list r) \<le> nat (Max (set (map sum_list reps)))"
    using le by (simp add: nat_mono)
qed

lemma upsample_gathered:
  fixes sf :: "('a::zero) tensor3"
  assumes sf: "has_shape3 sf B T F" and reps: "has_shape2 reps B T"
    and rows: "list_all (\<lambda>r. list_all (\<lambda>c. 0 \<le> c) r \<and> nat (sum_list r) \<le> M) reps"
  shows "gather (map (\<lambda>row. row @ [pad]) sf)
           (map (\<lambda>b. replicate M (int b)) [0..<B])
           (map (\<lambda>r. upsampled_row (map int [0..<T]) r M (- 1)) reps)
         = Inr (map (\<lambda>b. upsampled_row (sf ! b) (reps ! b) M pad) [0..<B])"
proof -
  let ?idx = "map int [0..<T]"
  from reps have lenr: "length reps = B" by (simp add: has_shape2_def)
  from sf have lens: "length sf = B" by (simp add: has_shape3_def)
  have "map (\<lambda>b. upsampled_row ?idx (reps ! b) M (- 1)) [0..<B]
        = map (\<lambda>r. upsampled_row ?idx r M (- 1)) (map ((!) reps) [0..<length reps])"
    by (simp add: lenr)
  then have idxs: "map (\<lambda>r. upsampled_row ?idx r M (- 1)) reps
              = map (\<lambda>b. upsampled_row ?idx (reps ! b) M (- 1)) [0..<B]"
    by (simp only: map_nth)
  have facts: "length (sf ! b) = T \<and> length (reps ! b) = T \<and>
               list_all (\<lambda>c. 0 \<le> c) (reps ! b) \<and> nat (sum_list (reps ! b)) \<le> M"
    if "b < B" for b
    using that sf reps rows lenr by (simp add: has_shape3_def has_shape2_def list_all_length)
  have row: "collect (map2 (\<lambda>b j.
            (case get_item (map (\<lambda>row. row @ [pad]) sf) b of Inl e \<Rightarrow> Inl e | Inr row \<Rightarrow> get_item row j))
            (replicate M (int b)) (upsampled_row ?idx (reps ! b) M (- 1)))
         = Inr (upsampled_row (sf ! b) (reps ! b) M pad)" if "b \<in> set [0..<B]" for b
  proof -
    from that have b: "b < B" by simp
    with lens have 0: "b < length sf" by simp
    from facts [OF b] show ?thesis
      by (intro gather_row [OF 0]) simp_all
  qed
  have shape: "list_all2 (\<lambda>bs js. length bs = length js)
                 (map (\<lambda>b. replicate M (int b)) [0..<B])
                 (map (\<lambda>b. upsampled_row ?idx (reps ! b) M (- 1)) [0..<B])"
  proof -
    have "length (upsampled_row ?idx (reps ! b) M (- 1)) = M" if "b < B" for b
    proof -
      from facts [OF that] have "length (repeat_steps ?idx (reps ! b)) = nat (sum_list (reps ! b))"
        by (intro length_repeat_steps) simp_all
      with facts [OF that] show ?thesis by (simp add: upsampled_row_def)
    qed
    then show ?thesis
      by (simp add: list_all2_map1 list_all2_map2 list_all2_same)
  qed
  show ?thesis
    unfolding idxs gather_one_shape [OF shape] map2_map_same
    by (rule collect_map_Inr) (rule row)
qed

lemma upsample_characterisation:
  fixes sf :: "('a::zero) tensor3"
  assumes sf: "has_shape3 sf B T F" and reps: "has_shape2 reps B T" and B: "0 < B"
    and nonneg: "list_all (list_all (\<lambda>c. 0 \<le> c)) reps"
    and small: "list_all (\<lambda>r. sum_list r < 2 ^ 63) reps"
  shows "upsample_to_repetitions sf reps =
         Inr (map (\<lambda>b. upsampled_row (sf ! b) (reps ! b)
                      (nat (Max (set (map sum_list reps)))) (replicate (shape2 sf) 0)) [0..<B])"
proof -
  define M where "M = Max (set (map sum_list reps))"
  define idx where "idx = map int [0..<T]"
  define pad where "pad = replicate (shape2 sf) (0::'a)"
  from reps B have ne: "reps \<noteq> []" and lenr: "length reps = B"
    by (auto simp: has_shape2_def)
  have sums: "torch_sum_rows reps = map sum_list reps"
    by (rule torch_sum_rows_exact [OF nonneg small])
  have mx: "torch_max (map sum_list reps) = Inr M"
    using torch_max_Max [of "map sum_list reps"] ne by (simp add: M_def)
  have M0: "\<not> M < 0"
    using Max_sums_bounds(1) [OF ne nonneg] by (simp add: M_def)
  have rs: "reshape_rows B reps = Inr reps"
    by (rule reshape_rows_aligned [OF reps B])
  have rows: "list_all (\<lambda>r. length r = T \<and> list_all (\<lambda>c. 0 \<le> c) r \<and> nat (sum_list r) \<le> nat M) reps"
    using reps nonneg Max_sums_bounds(2) [OF ne nonneg]
    by (auto simp: has_shape2_def list_all_iff M_def)
  then have rows': "list_all (\<lambda>r. list_all (\<lambda>c. 0 \<le> c) r \<and> nat (sum_list r) \<le> nat M) reps"
    by (simp add: list_all_iff)
  have "fill_rows idx 0 (zip reps (map sum_list reps)) ([] @ replicate (length reps) (replicate (nat M) (- 1)))
              = Inr ([] @ map (\<lambda>r. upsampled_row idx r (nat M) (- 1)) reps)"
    by (rule fill_rows_ok [where T = T]) (simp_all add: idx_def rows)
  then have fill: "fill_rows idx 0 (zip reps (map sum_list reps)) (replicate B (replicate (nat M) (- 1)))
              = Inr (map (\<lambda>r. upsampled_row idx r (nat M) (- 1)) reps)"
    by (simp add: lenr)
  have gath: "gather (map (\<lambda>row. row @ [pad]) sf)
                (map (\<lambda>b. replicate (nat M) (int b)) [0..<B])
                (map (\<lambda>r. upsampled_row idx r (nat M) (- 1)) reps)
              = Inr (map (\<lambda>b. upsampled_row (sf ! b) (reps ! b) (nat M) pad) [0..<B])"
    unfolding idx_def by (rule upsample_gathered [OF sf reps rows'])
  have "upsample_to_repetitions sf reps =
        gather (map (\<lambda>row. row @ [pad]) sf)
                (map (\<lambda>b. replicate (nat M) (int b)) [0..<B])
                (map (\<lambda>r. upsampled_row idx r (nat M) (- 1)) reps)"
    unfolding upsample_to_repetitions_def Let_def shape0_eq [OF sf] shape1_eq [OF sf B]
      pad_def [symmetric] idx_def [symmetric] sums
    by (simp only: mx rs M0 fill sum.case if_False)
  with gath show ?thesis
    by (simp only: M_def pad_def)
qed

lemma np_repeat_negative:
  assumes "length counts = length a" and "list_ex (\<lambda>c. c < 0) counts"
  shows "np_repeat a counts = Inl ValueError"
proof (cases "length counts = 1")
  case True
  then obtain c where c: "counts = [c]" by (cases counts) auto
  with assms(1) have "a \<noteq> []" by auto
  with c assms(2) show ?thesis by (simp add: np_repeat_def)
next
  case False
  with assms show ?thesis by (simp add: np_repeat_def)
qed

lemma fill_rows_refused:
  assumes "length idx = T"
    and "list_all (\<lambda>r. length r = T \<and> wrap64 (sum_list r) \<le> int M) rs"
    and "int M < 2 ^ 63"
    and "list_ex (\<lambda>r. list_ex (\<lambda>c. c < 0) r \<or> 2 ^ 63 \<le> sum_list r) rs"
    and "length pre = b"
  shows "fill_rows idx b (zip rs (torch_sum_rows rs)) (pre @ replicate (length rs) (replicate M (- 1)))
         = Inl ValueError"
  using assms(2,4,5)
proof (induction rs arbitrary: pre b)
  case Nil
  then show ?case by simp
next
  case (Cons r rs)
  let ?blank = "replicate M (- 1 :: int)"
  from Cons.prems have r: "length r = T" "wrap64 (sum_list r) \<le> int M"
    and rs: "list_all (\<lambda>r. length r = T \<and> wrap64 (sum_list r) \<le> int M) rs"
    by simp_all
  have zipped: "zip (r # rs) (torch_sum_rows (r # rs))
                = (r, wrap64 (sum_list r)) # zip rs (torch_sum_rows rs)"
    by (simp add: torch_sum_rows_def)
  have nth: "(pre @ ?blank # replicate (length rs) ?blank) ! b = ?blank"
    using Cons.prems(3) by (simp add: nth_append)
  show ?case
  proof (cases "list_ex (\<lambda>c. c < 0) r")
    case True
    then have "np_repeat idx r = Inl ValueError"
      using np_repeat_negative [of r idx] r(1) assms(1) by simp
    then show ?thesis unfolding zipped by simp
  next
    case False
    then have pos: "list_all (\<lambda>c. 0 \<le> c) r"
      by (simp add: list_all_iff list_ex_iff not_less)
    have nonneg: "0 \<le> sum_list r"
      using pos by (auto simp: list_all_iff intro: sum_list_nonneg)
    have rep: "np_repeat idx r = Inr (repeat_steps idx r)"
      using np_repeat_ok [of r idx] r pos assms(1) by simp
    have len: "length (repeat_steps idx r) = nat (sum_list r)"
      using length_repeat_steps [of idx r] r pos assms(1) by simp
    show ?thesis
    proof (cases "2 ^ 63 \<le> sum_list r")
      case True
      with assms(3) have "length ?blank < length (repeat_steps idx r)"
        and "1 < length (repeat_steps idx r)"
        unfolding len by simp_all
      then have "assign_prefix ?blank (wrap64 (sum_list r)) (repeat_steps idx r) = Inl ValueError"
        by (rule assign_prefix_too_long)
      with rep nth show ?thesis unfolding zipped by simp
    next
      case small: False
      with nonneg have exact: "wrap64 (sum_list r) = sum_list r"
        by (intro wrap64_id) simp_all
      from Cons.prems(2) False small
      have tl: "list_ex (\<lambda>r. list_ex (\<lambda>c. c < 0) r \<or> 2 ^ 63 \<le> sum_list r) rs" by simp
      have asg: "assign_prefix ?blank (sum_list r) (repeat_steps idx r) = Inr (upsampled_row idx r M (- 1))"
        using assign_prefix_ok [of "repeat_steps idx r" "sum_list r" ?blank] len nonneg r(2) exact
        by (simp add: upsampled_row_def)
      have upd: "(pre @ ?blank # replicate (length rs) ?blank)[b := upsampled_row idx r M (- 1)]
                 = (pre @ [upsampled_row idx r M (- 1)]) @ replicate (length rs) ?blank"
        using Cons.prems(3) by (simp add: list_update_append)
      have "fill_rows idx (Suc b) (zip rs (torch_sum_rows rs))
              ((pre @ [upsampled_row idx r M (- 1)]) @ replicate (length rs) ?blank)
            = Inl ValueError"
        using Cons.IH [OF rs tl, of "pre @ [upsampled_row idx r M (- 1)]" "Suc b"] Cons.prems(3) by simp
      with rep nth asg upd exact show ?thesis unfolding zipped by simp
    qed
  qed
qed

lemma upsample_empty_batch:
  "upsample_to_repetitions sf [] = Inl RuntimeError"
  by (simp add: upsample_to_repetitions_def torch_sum_rows_def)

lemma upsample_negative_length:
  assumes "has_shape3 sf B T F" and "has_shape2 reps B T" and "0 < B"
    and "Max (set (torch_sum_rows reps)) < 0"
  shows "upsample_to_repetitions sf reps = Inl RuntimeError"
proof -
  from assms(2,3) have ne: "torch_sum_rows reps \<noteq> []"
    by (auto simp: has_shape2_def torch_sum_rows_def)
  have mx: "torch_max (torch_sum_rows reps) = Inr (Max (set (torch_sum_rows reps)))"
    by (rule torch_max_Max [OF ne])
  have rs: "reshape_rows B reps = Inr reps"
    by (rule reshape_rows_aligned [OF assms(2,3)])
  show ?thesis
    unfolding upsample_to_repetitions_def Let_def shape0_eq [OF assms(1)]
    by (simp only: mx rs assms(4) sum.case if_True)
qed

lemma upsample_refused_row:
  assumes sf: "has_shape3 sf B T F" and reps: "has_shape2 reps B T" and B: "0 < B"
    and M: "0 \<le> Max (set (torch_sum_rows reps))"
    and bad: "list_ex (\<lambda>r. list_ex (\<lambda>c. c < 0) r \<or> 2 ^ 63 \<le> sum_list r) reps"
  shows "upsample_to_repetitions sf reps = Inl ValueError"
proof -
  define M where "M = Max (set (torch_sum_rows reps))"
  define idx where "idx = map int [0..<T]"
  from reps B have ne: "torch_sum_rows reps \<noteq> []" and lenr: "length reps = B"
    by (auto simp: has_shape2_def torch_sum_rows_def)
  have mx: "torch_max (torch_sum_rows reps) = Inr M"
    unfolding M_def by (rule torch_max_Max [OF ne])
  have M0: "\<not> M < 0" using M by (simp add: M_def)
  have rs: "reshape_rows B reps = Inr reps"
    by (rule reshape_rows_aligned [OF reps B])
  have "M \<in> set (torch_sum_rows reps)"
    unfolding M_def using ne by (intro Max_in) simp_all
  then obtain r0 where "M = wrap64 (sum_list r0)" by (auto simp: torch_sum_rows_def)
  with wrap64_less [of "sum_list r0"] M0 have Mlt: "int (nat M) < 2 ^ 63" by simp
  have le: "wrap64 (sum_list r) \<le> int (nat M)" if "r \<in> set reps" for r
  proof -
    from that have "wrap64 (sum_list r) \<le> M"
      unfolding M_def by (intro Max_ge) (auto simp: torch_sum_rows_def)
    with M0 show ?thesis by simp
  qed
  have rows: "list_all (\<lambda>r. length r = T \<and> wrap64 (sum_list r) \<le> int (nat M)) reps"
    using reps le by (auto simp: has_shape2_def list_all_iff)
  have "fill_rows idx 0 (zip reps (torch_sum_rows reps)) ([] @ replicate (length reps) (replicate (nat M) (- 1)))
              = Inl ValueError"
    by (rule fill_rows_refused [where T = T, OF _ rows Mlt bad]) (simp_all add: idx_def)
  then have fill: "fill_rows idx 0 (zip reps (torch_sum_rows reps)) (replicate B (replicate (nat M) (- 1)))
              = Inl ValueError"
    by (simp add: lenr)
  show ?thesis
    unfolding upsample_to_repetitions_def Let_def shape0_eq [OF sf] shape1_eq [OF sf B]
      idx_def [symmetric]
    by (simp only: mx rs M0 fill sum.case if_False)
qed

lemma upsample_aligned:
  fixes sf :: "('a::zero) tensor3"
  assumes sf: "has_shape3 sf B T F" and reps: "has_shape2 reps B T" and B: "0 < B"
  shows "upsample_to_repetitions sf reps =
         (if Max (set (torch_sum_rows reps)) < 0 then Inl RuntimeError
          else if list_ex (\<lambda>r. list_ex (\<lambda>c. c < 0) r \<or> 2 ^ 63 \<le> sum_list r) reps
               then Inl ValueError
          else Inr (map (\<lambda>b. upsampled_row (sf ! b) (reps ! b)
                      (nat (Max (set (torch_sum_rows reps)))) (replicate (shape2 sf) 0)) [0..<B]))"
proof (cases "Max (set (torch_sum_rows reps)) < 0")
  case True
  then show ?thesis using upsample_negative_length [OF sf reps B] by simp
next
  case M: False
  show ?thesis
  proof (cases "list_ex (\<lambda>r. list_ex (\<lambda>c. c < 0) r \<or> 2 ^ 63 \<le> sum_list r) reps")
    case True
    with M show ?thesis using upsample_refused_row [OF sf reps B] by simp
  next
    case False
    then have nonneg: "list_all (list_all (\<lambda>c. 0 \<le> c)) reps"
      and small: "list_all (\<lambda>r. sum_list r < 2 ^ 63) reps"
      by (simp_all add: list_all_iff list_ex_iff not_less not_le)
    from upsample_characterisation [OF sf reps B nonneg small] M False
      torch_sum_rows_exact [OF nonneg small]
    show ?thesis by simp
  qed
qed

lemma is_permutation_length: "is_permutation p B \<Longrightarrow> length p = B"
  using distinct_card [of p] by (simp add: is_permutation_def)

lemma permute_rows_nth: "i < length p \<Longrightarrow> permute_rows p xs ! i = xs ! (p ! i)"
  by (simp add: permute_rows_def)

lemma set_permute_rows:
  "is_permutation p (length xs) \<Longrightarrow> set (permute_rows p xs) = set xs"
proof -
  assume "is_permutation p (length xs)"
  then have "set (permute_rows p xs) = (!) xs ` {0..<length xs}"
    by (simp add: permute_rows_def is_permutation_def)
  also have "\<dots> = set (map ((!) xs) [0..<length xs])" by simp
  also have "\<dots> = set xs" by (simp only: map_nth)
  finally show ?thesis .
qed

lemma has_shape3_permute:
  assumes "has_shape3 sf B T F" and "is_permutation p B"
  shows "has_shape3 (permute_rows p sf) B T F"
proof -
  from assms have "set (permute_rows p sf) = set sf"
    using set_permute_rows [of p sf] by (simp add: has_shape3_def)
  with assms show ?thesis
    by (simp add: has_shape3_def list_all_iff is_permutation_length permute_rows_def)
qed

lemma has_shape2_permute:
  assumes "has_shape2 reps B T" and "is_permutation p B"
  shows "has_shape2 (permute_rows p reps) B T"
proof -
  from assms have "set (permute_rows p reps) = set reps"
    using set_permute_rows [of p reps] by (simp add: has_shape2_def)
  with assms show ?thesis
    by (simp add: has_shape2_def list_all_iff is_permutation_length permute_rows_def)
qed

lemma shape2_permute:
  assumes "has_shape3 sf B T F" and "is_permutation p B" and "0 < B"
  shows "shape2 (permute_rows p sf) = shape2 sf"
proof (cases "T = 0")
  case True
  from assms have 1: "sf \<noteq> []" "hd sf = []"
    using True by (cases sf; auto simp: has_shape3_def)+
  from has_shape3_permute [OF assms(1,2)] assms(3) have 2: "permute_rows p sf \<noteq> []" "hd (permute_rows p sf) = []"
    using True by (cases "permute_rows p sf"; auto simp: has_shape3_def)+
  from 1 2 show ?thesis
    by (cases sf; cases "permute_rows p sf") (auto simp: shape2_def)
next
  case False
  with assms show ?thesis
    using shape2_eq [OF assms(1)] shape2_eq [OF has_shape3_permute [OF assms(1,2)]] by simp
qed

lemma upsampled_row_take:
  assumes "length steps = length counts" and "list_all (\<lambda>c. 0 \<le> c) counts"
  shows "take (nat (sum_list counts)) (upsampled_row steps counts M pad) = repeat_steps steps counts"
  using length_repeat_steps [OF assms] by (simp add: upsampled_row_def)

lemma upsampled_row_drop:
  assumes "length steps = length counts" and "list_all (\<lambda>c. 0 \<le> c) counts"
  shows "drop (nat (sum_list counts)) (upsampled_row steps counts M pad)
         = replicate (M - nat (sum_list counts)) pad"
  using length_repeat_steps [OF assms] by (simp add: upsampled_row_def)

lemma upsampled_row_length:
  assumes "length steps = length counts" and "list_all (\<lambda>c. 0 \<le> c) counts"
    and "nat (sum_list counts) \<le> M"
  shows "length (upsampled_row steps counts M pad) = M"
  using length_repeat_steps [OF assms(1,2)] assms(3) by (simp add: upsampled_row_def)

lemma upsampled_row_beyond:
  assumes "length steps = length counts" and "list_all (\<lambda>c. 0 \<le> c) counts"
    and "nat (sum_list counts) \<le> j" and "j < length (upsampled_row steps counts M pad)"
  shows "upsampled_row steps counts M pad ! j = pad"
  using length_repeat_steps [OF assms(1,2)] assms(3,4)
  by (simp add: upsampled_row_def nth_append)

lemma set_repeat_steps_lengths:
  "list_all (\<lambda>step. length step = F) steps \<Longrightarrow>
   list_all (\<lambda>step. length step = F) (repeat_steps steps counts)"
  using set_repeat_steps [of steps counts] by (auto simp: list_all_iff)

lemma no_steps_no_length:
  assumes "has_shape2 reps B 0" and "0 < B"
  shows "Max (set (map sum_list reps)) = 0"
proof -
  from assms have ne: "reps \<noteq> []" by (auto simp: has_shape2_def)
  have zero: "sum_list r = 0" if "r \<in> set reps" for r
  proof -
    from assms(1) that have "length r = 0" by (simp add: has_shape2_def list_all_iff)
    then show ?thesis by simp
  qed
  have "Max (set (map sum_list reps)) \<in> set (map sum_list reps)"
    using ne by (intro Max_in) simp_all
  then obtain r where "r \<in> set reps" and "Max (set (map sum_list reps)) = sum_list r"
    by auto
  with zero show ?thesis by simp
qed

lemma padder_width:
  fixes sf :: "('a::zero) tensor3"
  assumes "has_shape3 sf B T F" and "has_shape2 reps B T" and "0 < B"
  shows "replicate (nat (Max (set (map sum_list reps))) - k) (replicate (shape2 sf) (0::'a))
         = replicate (nat (Max (set (map sum_list reps))) - k) (replicate F 0)"
proof (cases "T = 0")
  case True
  with assms(2,3) show ?thesis using no_steps_no_length [of reps B] by simp
next
  case False
  with assms(1,3) show ?thesis using shape2_eq [of sf B T F] by simp
qed

lemma permute_rows_upsampled:
  assumes "is_permutation p B"
  shows "map (\<lambda>b. g (permute_rows p xs ! b) (permute_rows p ys ! b)) [0..<B]
         = permute_rows p (map (\<lambda>b. g (xs ! b) (ys ! b)) [0..<B])"
proof -
  from assms have len: "length p = B" by (rule is_permutation_length)
  from assms have inB: "\<And>i. i \<in> set p \<Longrightarrow> i < B" by (simp add: is_permutation_def)
  have "map (\<lambda>b. g (permute_rows p xs ! b) (permute_rows p ys ! b)) [0..<B]
        = map (\<lambda>b. g (xs ! (p ! b)) (ys ! (p ! b))) [0..<length p]"
    by (simp add: len permute_rows_nth)
  also have "\<dots> = map (\<lambda>i. g (xs ! i) (ys ! i)) (map ((!) p) [0..<length p])"
    by simp
  also have "\<dots> = map (\<lambda>i. g (xs ! i) (ys ! i)) p"
    by (simp only: map_nth)
  also have "\<dots> = permute_rows p (map (\<lambda>b. g (xs ! b) (ys ! b)) [0..<B])"
    using inB by (simp add: permute_rows_def)
  finally show ?thesis .
qed

section \<open>The claims about the upsampler\<close>

text \<open>
  Claim C1.  For a sequence batch of shape \<open>[B, T, F]\<close> with at least one row and
  non-negative integer counts of shape \<open>[B, T]\<close>, every row sum of which is a 64-bit
  signed integer (below \<open>2 ^ 63\<close>), \<^verbatim>\<open>upsample_to_repetitions\<close> returns an output of
  \<open>B\<close> rows.  Row \<open>b\<close> has the common length \<open>max\<^sub>b sum (repeats b)\<close>; its first
  \<open>sum (repeats b)\<close> positions are the steps of input row \<open>b\<close>, each written as often as
  its count, in step order; every position from there on is the zero step.  The instance
  of the specification, counts \<open>[2, 0, 1]\<close> over \<open>[[5], [7], [9]]\<close>, is the witness.
\<close>

theorem upsample_rows_repeated_then_zero:
  fixes sequence_feature :: "('a::zero) tensor3"
  assumes "has_shape3 sequence_feature B T F" and "has_shape2 repeats B T" and "0 < B"
    and "list_all (list_all (\<lambda>c. 0 \<le> c)) repeats"
    and "list_all (\<lambda>r. sum_list r < 2 ^ 63) repeats"
  shows "\<exists>out. upsample_to_repetitions sequence_feature repeats = Inr out \<and> length out = B \<and>
           (\<forall>b<B. length (out ! b) = nat (Max (set (map sum_list repeats))) \<and>
                  take (nat (sum_list (repeats ! b))) (out ! b)
                    = repeat_steps (sequence_feature ! b) (repeats ! b) \<and>
                  (\<forall>j. nat (sum_list (repeats ! b)) \<le> j \<and> j < length (out ! b)
                       \<longrightarrow> out ! b ! j = replicate F 0))"
proof -
  let ?M = "nat (Max (set (map sum_list repeats)))"
  let ?out = "map (\<lambda>b. upsampled_row (sequence_feature ! b) (repeats ! b) ?M
                       (replicate (shape2 sequence_feature) (0::'a))) [0..<B]"
  from assms(2,3) have ne: "repeats \<noteq> []" and lenr: "length repeats = B"
    by (auto simp: has_shape2_def)
  have out: "upsample_to_repetitions sequence_feature repeats = Inr ?out"
    by (rule upsample_characterisation [OF assms])
  have row: "length (?out ! b) = ?M \<and>
             take (nat (sum_list (repeats ! b))) (?out ! b)
               = repeat_steps (sequence_feature ! b) (repeats ! b) \<and>
             (\<forall>j. nat (sum_list (repeats ! b)) \<le> j \<and> j < length (?out ! b)
                  \<longrightarrow> ?out ! b ! j = replicate F 0)" if b: "b < B" for b
  proof -
    from b assms(1) have l1: "length (sequence_feature ! b) = T"
      by (simp add: has_shape3_def list_all_length)
    from b assms(2) have l2: "length (repeats ! b) = T"
      by (simp add: has_shape2_def list_all_length)
    from b assms(4) lenr have pos: "list_all (\<lambda>c. 0 \<le> c) (repeats ! b)"
      by (simp add: list_all_length)
    from b lenr have "repeats ! b \<in> set repeats" by simp
    then have le: "nat (sum_list (repeats ! b)) \<le> ?M"
      by (rule Max_sums_bounds(2) [OF ne assms(4)])
    have len: "length (sequence_feature ! b) = length (repeats ! b)"
      using l1 l2 by simp
    have nth: "?out ! b = upsampled_row (sequence_feature ! b) (repeats ! b) ?M (replicate F 0)"
      using b padder_width [OF assms(1,2,3), of "nat (sum_list (repeats ! b))"]
      by (simp add: upsampled_row_def)
    show ?thesis
      unfolding nth
      using upsampled_row_length [OF len pos le] upsampled_row_take [OF len pos]
        upsampled_row_beyond [OF len pos]
      by simp
  qed
  have "length ?out = B" by simp
  with out row show ?thesis by blast
qed

theorem upsample_rows_repeated_then_zero_witness:
  "has_shape3 [[[5], [7], [9]], [[1], [2], [3 :: int]]] 2 3 1 \<and>
   has_shape2 [[2, 0, 1], [2, 2, 1 :: int]] 2 3 \<and>
   (0 :: nat) < 2 \<and>
   list_all (list_all (\<lambda>c. 0 \<le> c)) [[2, 0, 1], [2, 2, 1 :: int]] \<and>
   list_all (\<lambda>r. sum_list r < 2 ^ 63) [[2, 0, 1], [2, 2, 1 :: int]] \<and>
   upsample_to_repetitions [[[5], [7], [9]], [[1], [2], [3 :: int]]] [[2, 0, 1], [2, 2, 1]]
     = Inr [[[5], [5], [9], [0], [0]], [[1], [1], [2], [2], [3]]]"
proof -
  have h1: "has_shape3 [[[5], [7], [9]], [[1], [2], [3 :: int]]] 2 3 1"
    by (simp add: has_shape3_def)
  have h2: "has_shape2 [[2, 0, 1], [2, 2, 1 :: int]] 2 3"
    by (simp add: has_shape2_def)
  have h3: "(0 :: nat) < 2" by simp
  have h4: "list_all (list_all (\<lambda>c. 0 \<le> c)) [[2, 0, 1], [2, 2, 1 :: int]]" by simp
  have ev: "upsample_to_repetitions [[[5], [7], [9]], [[1], [2], [3 :: int]]] [[2, 0, 1], [2, 2, 1]]
     = Inr [[[5], [5], [9], [0], [0]], [[1], [1], [2], [2], [3]]]"
    by code_simp
  have h5: "list_all (\<lambda>r. sum_list r < 2 ^ 63) [[2, 0, 1], [2, 2, 1 :: int]]" by simp
  from upsample_rows_repeated_then_zero [OF h1 h2 h3 h4 h5] h1 h2 h3 h4 h5 ev show ?thesis
    by simp
qed

text \<open>
  Claim C2.  On a valid input (a batch of shape \<open>[B, T, F]\<close> with at least one row and
  non-negative counts of shape \<open>[B, T]\<close> whose row sums are 64-bit signed integers, that
  is, below \<open>2 ^ 63\<close>) the output is a three-axis array of shape
  \<open>[B, M, F]\<close>, where \<open>M\<close> is the largest row sum of the counts, and a row whose sum is
  smaller than \<open>M\<close> ends in \<open>M - sum\<close> zero steps.
\<close>

theorem upsample_output_shape:
  fixes sequence_feature :: "('a::zero) tensor3"
  assumes "has_shape3 sequence_feature B T F" and "has_shape2 repeats B T" and "0 < B"
    and "list_all (list_all (\<lambda>c. 0 \<le> c)) repeats"
    and "list_all (\<lambda>r. sum_list r < 2 ^ 63) repeats"
  shows "\<exists>out. upsample_to_repetitions sequence_feature repeats = Inr out \<and>
           has_shape3 out B (nat (Max (set (map sum_list repeats)))) F \<and>
           (\<forall>b<B. sum_list (repeats ! b) < Max (set (map sum_list repeats)) \<longrightarrow>
                  drop (nat (sum_list (repeats ! b))) (out ! b)
                    = replicate (nat (Max (set (map sum_list repeats))) - nat (sum_list (repeats ! b)))
                        (replicate F 0))"
proof -
  let ?M = "nat (Max (set (map sum_list repeats)))"
  let ?out = "map (\<lambda>b. upsampled_row (sequence_feature ! b) (repeats ! b) ?M
                       (replicate (shape2 sequence_feature) (0::'a))) [0..<B]"
  from assms(2,3) have ne: "repeats \<noteq> []" and lenr: "length repeats = B"
    by (auto simp: has_shape2_def)
  have out: "upsample_to_repetitions sequence_feature repeats = Inr ?out"
    by (rule upsample_characterisation [OF assms])
  have row: "length (?out ! b) = ?M \<and>
             list_all (\<lambda>step. length step = F) (?out ! b) \<and>
             drop (nat (sum_list (repeats ! b))) (?out ! b)
               = replicate (?M - nat (sum_list (repeats ! b))) (replicate F 0)" if b: "b < B" for b
  proof -
    from b assms(1) have l1: "length (sequence_feature ! b) = T"
      and steps: "list_all (\<lambda>step. length step = F) (sequence_feature ! b)"
      by (simp_all add: has_shape3_def list_all_length)
    from b assms(2) have l2: "length (repeats ! b) = T"
      by (simp add: has_shape2_def list_all_length)
    from b assms(4) lenr have pos: "list_all (\<lambda>c. 0 \<le> c) (repeats ! b)"
      by (simp add: list_all_length)
    from b lenr have "repeats ! b \<in> set repeats" by simp
    then have le: "nat (sum_list (repeats ! b)) \<le> ?M"
      by (rule Max_sums_bounds(2) [OF ne assms(4)])
    have len: "length (sequence_feature ! b) = length (repeats ! b)"
      using l1 l2 by simp
    have nth: "?out ! b = upsampled_row (sequence_feature ! b) (repeats ! b) ?M (replicate F 0)"
      using b padder_width [OF assms(1,2,3), of "nat (sum_list (repeats ! b))"]
      by (simp add: upsampled_row_def)
    have widths: "list_all (\<lambda>step. length step = F)
                    (upsampled_row (sequence_feature ! b) (repeats ! b) ?M (replicate F (0::'a)))"
      using set_repeat_steps_lengths [OF steps, of "repeats ! b"]
      by (auto simp: upsampled_row_def list_all_iff)
    show ?thesis
      unfolding nth
      using upsampled_row_length [OF len pos le] upsampled_row_drop [OF len pos] widths
      by simp
  qed
  have "length r = ?M \<and> list_all (\<lambda>step. length step = F) r" if "r \<in> set ?out" for r
  proof -
    from that obtain b where "b < B" and "r = ?out ! b" by auto
    with row [of b] show ?thesis by simp
  qed
  then have shape: "has_shape3 ?out B ?M F"
    by (simp add: has_shape3_def list_all_iff)
  from row have "\<forall>b<B. sum_list (repeats ! b) < Max (set (map sum_list repeats)) \<longrightarrow>
                  drop (nat (sum_list (repeats ! b))) (?out ! b)
                    = replicate (?M - nat (sum_list (repeats ! b))) (replicate F 0)"
    by blast
  with out shape show ?thesis by blast
qed

theorem upsample_output_shape_witness:
  "has_shape3 [[[5, 6], [7, 8]], [[1, 2], [3, 4 :: int]]] 2 2 2 \<and>
   has_shape2 [[1, 0], [2, 1 :: int]] 2 2 \<and>
   (0 :: nat) < 2 \<and>
   list_all (list_all (\<lambda>c. 0 \<le> c)) [[1, 0], [2, 1 :: int]] \<and>
   list_all (\<lambda>r. sum_list r < 2 ^ 63) [[1, 0], [2, 1 :: int]] \<and>
   upsample_to_repetitions [[[5, 6], [7, 8]], [[1, 2], [3, 4 :: int]]] [[1, 0], [2, 1]]
     = Inr [[[5, 6], [0, 0], [0, 0]], [[1, 2], [1, 2], [3, 4]]] \<and>
   has_shape3 [[[5, 6], [0, 0], [0, 0]], [[1, 2], [1, 2], [3, 4 :: int]]] 2 3 2"
proof -
  have h1: "has_shape3 [[[5, 6], [7, 8]], [[1, 2], [3, 4 :: int]]] 2 2 2"
    by (simp add: has_shape3_def)
  have h2: "has_shape2 [[1, 0], [2, 1 :: int]] 2 2"
    by (simp add: has_shape2_def)
  have h3: "(0 :: nat) < 2" by simp
  have h4: "list_all (list_all (\<lambda>c. 0 \<le> c)) [[1, 0], [2, 1 :: int]]" by simp
  have ev: "upsample_to_repetitions [[[5, 6], [7, 8]], [[1, 2], [3, 4 :: int]]] [[1, 0], [2, 1]]
     = Inr [[[5, 6], [0, 0], [0, 0]], [[1, 2], [1, 2], [3, 4]]]"
    by code_simp
  have sh: "has_shape3 [[[5, 6], [0, 0], [0, 0]], [[1, 2], [1, 2], [3, 4 :: int]]] 2 3 2"
    by (simp add: has_shape3_def)
  have h5: "list_all (\<lambda>r. sum_list r < 2 ^ 63) [[1, 0], [2, 1 :: int]]" by simp
  from upsample_output_shape [OF h1 h2 h3 h4 h5] h1 h2 h3 h4 h5 ev sh show ?thesis
    by simp
qed

text \<open>
  Claim C5.  For a batch and counts of aligned shapes and a permutation \<open>p\<close> of the rows,
  upsampling the permuted batch with the permuted counts gives the permuted result of
  upsampling the batch with the counts: the same rows in the new order, or the same
  exception.
\<close>

theorem upsample_permutation_equivariant:
  fixes sequence_feature :: "('a::zero) tensor3"
  assumes "has_shape3 sequence_feature B T F" and "has_shape2 repeats B T"
    and "is_permutation p B"
  shows "upsample_to_repetitions (permute_rows p sequence_feature) (permute_rows p repeats)
         = map_sum id (permute_rows p) (upsample_to_repetitions sequence_feature repeats)"
proof (cases "B = 0")
  case True
  with assms(2,3) have "repeats = []" and "p = []"
    by (simp_all add: has_shape2_def is_permutation_def)
  then show ?thesis
    by (simp add: permute_rows_def upsample_empty_batch)
next
  case False
  then have B: "0 < B" by simp
  let ?sf' = "permute_rows p sequence_feature" and ?reps' = "permute_rows p repeats"
  from assms(2) have lenr: "length repeats = B" by (simp add: has_shape2_def)
  have sf': "has_shape3 ?sf' B T F" by (rule has_shape3_permute [OF assms(1,3)])
  have reps': "has_shape2 ?reps' B T" by (rule has_shape2_permute [OF assms(2,3)])
  have rows: "set ?reps' = set repeats"
    using set_permute_rows [of p repeats] assms(3) lenr by simp
  then have mx: "Max (set (torch_sum_rows ?reps')) = Max (set (torch_sum_rows repeats))"
    by (simp add: torch_sum_rows_def)
  from rows have neg: "list_ex (\<lambda>r. list_ex (\<lambda>c. c < 0) r \<or> 2 ^ 63 \<le> sum_list r) ?reps'
                     = list_ex (\<lambda>r. list_ex (\<lambda>c. c < 0) r \<or> 2 ^ 63 \<le> sum_list r) repeats"
    by (simp add: list_ex_iff)
  have pad: "shape2 ?sf' = shape2 sequence_feature"
    by (rule shape2_permute [OF assms(1,3) B])
  have perm: "map (\<lambda>b. upsampled_row (?sf' ! b) (?reps' ! b) M z) [0..<B]
              = permute_rows p (map (\<lambda>b. upsampled_row (sequence_feature ! b) (repeats ! b) M z) [0..<B])"
    for M and z :: "'a list"
    using permute_rows_upsampled
      [OF assms(3), of "\<lambda>x y. upsampled_row x y M z" sequence_feature repeats]
    by simp
  show ?thesis
    unfolding upsample_aligned [OF sf' reps' B] upsample_aligned [OF assms(1,2) B] mx neg pad
    by (simp add: perm)
qed

theorem upsample_permutation_equivariant_witness:
  "has_shape3 [[[5], [7], [9]], [[1], [2], [3 :: int]]] 2 3 1 \<and>
   has_shape2 [[2, 0, 1], [2, 2, 1 :: int]] 2 3 \<and>
   is_permutation [1, 0] 2 \<and>
   upsample_to_repetitions (permute_rows [1, 0] [[[5], [7], [9]], [[1], [2], [3 :: int]]])
       (permute_rows [1, 0] [[2, 0, 1], [2, 2, 1]])
     = Inr [[[1], [1], [2], [2], [3]], [[5], [5], [9], [0], [0]]] \<and>
   upsample_to_repetitions [[[5], [7], [9]], [[1], [2], [3 :: int]]] [[2, 0, 1], [2, 2, 1]]
     = Inr [[[5], [5], [9], [0], [0]], [[1], [1], [2], [2], [3]]]"
proof -
  have h1: "has_shape3 [[[5], [7], [9]], [[1], [2], [3 :: int]]] 2 3 1"
    by (simp add: has_shape3_def)
  have h2: "has_shape2 [[2, 0, 1], [2, 2, 1 :: int]] 2 3"
    by (simp add: has_shape2_def)
  have h3: "is_permutation [1, 0] 2"
    by (auto simp: is_permutation_def)
  have ev: "upsample_to_repetitions [[[5], [7], [9]], [[1], [2], [3 :: int]]] [[2, 0, 1], [2, 2, 1]]
     = Inr [[[5], [5], [9], [0], [0]], [[1], [1], [2], [2], [3]]]"
    by code_simp
  from upsample_permutation_equivariant [OF h1 h2 h3] h1 h2 h3 ev show ?thesis
    by (simp add: permute_rows_def)
qed

text \<open>
  Claim C6.  In a valid batch (aligned shapes, non-negative counts, row sums below
  \<open>2 ^ 63\<close>) where row \<open>b\<close> has count 0 at every step and another row has a positive
  sum, output row \<open>b\<close> is not empty and consists of zero steps only.
\<close>

theorem upsample_all_zero_row:
  fixes sequence_feature :: "('a::zero) tensor3"
  assumes "has_shape3 sequence_feature B T F" and "has_shape2 repeats B T"
    and "list_all (list_all (\<lambda>c. 0 \<le> c)) repeats"
    and "b < B" and "list_all (\<lambda>c. c = 0) (repeats ! b)"
    and "b' < B" and "0 < sum_list (repeats ! b')"
    and "list_all (\<lambda>r. sum_list r < 2 ^ 63) repeats"
  shows "\<exists>out. upsample_to_repetitions sequence_feature repeats = Inr out \<and>
           0 < Max (set (map sum_list repeats)) \<and>
           out ! b = replicate (nat (Max (set (map sum_list repeats)))) (replicate F 0)"
proof -
  let ?M = "nat (Max (set (map sum_list repeats)))"
  let ?out = "map (\<lambda>b. upsampled_row (sequence_feature ! b) (repeats ! b) ?M
                       (replicate (shape2 sequence_feature) (0::'a))) [0..<B]"
  from assms(4) have B: "0 < B" by simp
  from assms(2) have lenr: "length repeats = B" by (simp add: has_shape2_def)
  have out: "upsample_to_repetitions sequence_feature repeats = Inr ?out"
    by (rule upsample_characterisation [OF assms(1,2) B assms(3,8)])
  from assms(6) lenr have "sum_list (repeats ! b') \<in> set (map sum_list repeats)" by simp
  then have "sum_list (repeats ! b') \<le> Max (set (map sum_list repeats))" by simp
  with assms(7) have M: "0 < Max (set (map sum_list repeats))" by simp
  have zeros: "\<And>steps. list_all (\<lambda>c. c = 0) cs \<Longrightarrow> repeat_steps steps cs = [] \<and> sum_list cs = 0" for cs :: "int list"
  proof (induction cs)
    case Nil
    then show ?case by (simp add: repeat_steps_def)
  next
    case (Cons c cs)
    then show ?case by (cases steps) (simp_all add: repeat_steps_def)
  qed
  have "?out ! b = upsampled_row (sequence_feature ! b) (repeats ! b) ?M (replicate F 0)"
    using assms(4) padder_width [OF assms(1,2) B, of "nat (sum_list (repeats ! b))"]
    by (simp add: upsampled_row_def)
  also have "\<dots> = replicate ?M (replicate F 0)"
    using zeros [OF assms(5), of "sequence_feature ! b"] by (simp add: upsampled_row_def)
  finally have "?out ! b = replicate ?M (replicate F 0)" .
  with out M show ?thesis by blast
qed

theorem upsample_all_zero_row_witness:
  "has_shape3 [[[5], [7]], [[1], [3 :: int]]] 2 2 1 \<and>
   has_shape2 [[0, 0], [2, 1 :: int]] 2 2 \<and>
   list_all (list_all (\<lambda>c. 0 \<le> c)) [[0, 0], [2, 1 :: int]] \<and>
   (0 :: nat) < 2 \<and> list_all (\<lambda>c. c = 0) ([[0, 0], [2, 1 :: int]] ! 0) \<and>
   (1 :: nat) < 2 \<and> 0 < sum_list ([[0, 0], [2, 1 :: int]] ! 1) \<and>
   list_all (\<lambda>r. sum_list r < 2 ^ 63) [[0, 0], [2, 1 :: int]] \<and>
   upsample_to_repetitions [[[5], [7]], [[1], [3 :: int]]] [[0, 0], [2, 1]]
     = Inr [[[0], [0], [0]], [[1], [1], [3]]]"
proof -
  have h1: "has_shape3 [[[5], [7]], [[1], [3 :: int]]] 2 2 1"
    by (simp add: has_shape3_def)
  have h2: "has_shape2 [[0, 0], [2, 1 :: int]] 2 2"
    by (simp add: has_shape2_def)
  have h3: "list_all (list_all (\<lambda>c. 0 \<le> c)) [[0, 0], [2, 1 :: int]]" by simp
  have h4: "(0 :: nat) < 2" by simp
  have h5: "list_all (\<lambda>c. c = 0) ([[0, 0], [2, 1 :: int]] ! 0)" by simp
  have h6: "(1 :: nat) < 2" by simp
  have h7: "0 < sum_list ([[0, 0], [2, 1 :: int]] ! 1)" by simp
  have ev: "upsample_to_repetitions [[[5], [7]], [[1], [3 :: int]]] [[0, 0], [2, 1]]
     = Inr [[[0], [0], [0]], [[1], [1], [3]]]"
    by code_simp
  have h8: "list_all (\<lambda>r. sum_list r < 2 ^ 63) [[0, 0], [2, 1 :: int]]" by simp
  from upsample_all_zero_row [OF h1 h2 h3 h4 h5 h6 h7 h8] h1 h2 h3 h4 h5 h6 h7 h8 ev show ?thesis
    by simp
qed

text \<open>
  Claim C7.  When the counts, aligned in shape with the batch, hold a negative entry,
  \<^verbatim>\<open>upsample_to_repetitions\<close> returns no output: an exception of the numeric libraries
  leaves the function.  It is the tensor library's \<^verbatim>\<open>RuntimeError\<close> for the negative
  size when even the largest of the row sums, as the tensor library computes them, is
  negative, and otherwise a \<^verbatim>\<open>ValueError\<close> of the array library, at the latest that of
  \<^verbatim>\<open>np.repeat\<close> at the first row with a negative count.
\<close>

theorem upsample_negative_repeats_fails:
  fixes sequence_feature :: "('a::zero) tensor3"
  assumes "has_shape3 sequence_feature B T F" and "has_shape2 repeats B T"
    and "list_ex (list_ex (\<lambda>c. c < 0)) repeats"
  shows "upsample_to_repetitions sequence_feature repeats =
           Inl (if Max (set (torch_sum_rows repeats)) < 0 then RuntimeError else ValueError)"
proof -
  from assms(3) have "repeats \<noteq> []" by auto
  with assms(2) have B: "0 < B" by (auto simp: has_shape2_def)
  from assms(3) have "list_ex (\<lambda>r. list_ex (\<lambda>c. c < 0) r \<or> 2 ^ 63 \<le> sum_list r) repeats"
    by (auto simp: list_ex_iff)
  then show ?thesis
    using upsample_aligned [OF assms(1,2) B] by simp
qed

theorem upsample_negative_repeats_fails_witness:
  "has_shape3 [[[5], [7], [9]], [[1], [2], [3 :: int]]] 2 3 1 \<and>
   has_shape2 [[2, 0, 1], [2, - 2, 1 :: int]] 2 3 \<and>
   list_ex (list_ex (\<lambda>c. c < 0)) [[2, 0, 1], [2, - 2, 1 :: int]] \<and>
   upsample_to_repetitions [[[5], [7], [9]], [[1], [2], [3 :: int]]] [[2, 0, 1], [2, - 2, 1]]
     = Inl ValueError"
proof -
  have h1: "has_shape3 [[[5], [7], [9]], [[1], [2], [3 :: int]]] 2 3 1"
    by (simp add: has_shape3_def)
  have h2: "has_shape2 [[2, 0, 1], [2, - 2, 1 :: int]] 2 3"
    by (simp add: has_shape2_def)
  have h3: "list_ex (list_ex (\<lambda>c. c < 0)) [[2, 0, 1], [2, - 2, 1 :: int]]" by simp
  have mx: "\<not> Max (set (torch_sum_rows [[2, 0, 1], [2, - 2, 1]])) < 0"
    by (simp add: torch_sum_rows_def wrap64_def)
  from upsample_negative_repeats_fails [OF h1 h2 h3] h1 h2 h3 mx show ?thesis
    by simp
qed

section \<open>Properties of the string codec\<close>

lemma encode_lines_ok:
  assumes "list_all (\<lambda>line. length line \<le> W) lines" and "length pre = i"
  shows "encode_lines i lines (pre @ replicate (length lines) (replicate W 0))
         = Inr (pre @ map (encoded_row W) lines)"
  using assms
proof (induction lines arbitrary: pre i)
  case Nil
  then show ?case by simp
next
  case (Cons line lines)
  let ?blank = "replicate W (0 :: int8)"
  from Cons.prems have le: "length line \<le> W"
    and rest: "list_all (\<lambda>line. length line \<le> W) lines"
    by simp_all
  have nth: "(pre @ ?blank # replicate (length lines) ?blank) ! i = ?blank"
    using Cons.prems(2) by (simp add: nth_append)
  have asg: "assign_prefix ?blank (int (length line)) (map to_int8 (map ord line))
             = Inr (encoded_row W line)"
    using assign_prefix_ok [of "map to_int8 (map ord line)" "int (length line)" ?blank] le
    by (simp add: encoded_row_def)
  have upd: "(pre @ ?blank # replicate (length lines) ?blank)[i := encoded_row W line]
             = (pre @ [encoded_row W line]) @ replicate (length lines) ?blank"
    using Cons.prems(2) by (simp add: list_update_append)
  have "encode_lines (Suc i) lines ((pre @ [encoded_row W line]) @ replicate (length lines) ?blank)
        = Inr ((pre @ [encoded_row W line]) @ map (encoded_row W) lines)"
    using Cons.IH [OF rest, of "pre @ [encoded_row W line]" "Suc i"] Cons.prems(2) by simp
  with nth asg upd show ?case by simp
qed

lemma string_to_ascii_ok:
  assumes "0 \<le> max_len" and "list_all (\<lambda>line. int (length line) \<le> max_len) strings"
  shows "string_to_ascii (Several strings) (Some max_len)
         = Inr (map (encoded_row (nat max_len)) strings)"
proof -
  from assms have "list_all (\<lambda>line. length line \<le> nat max_len) strings"
    by (auto simp: list_all_iff)
  from encode_lines_ok [OF this, of "[]" 0] assms(1) show ?thesis
    by (simp add: string_to_ascii_def)
qed

lemma py_chr_ascii:
  assumes "ord c < 128"
  shows "py_chr (to_int8 (ord c)) = Inr c"
proof -
  have "sint (word_of_nat (ord c) :: int8) = int (ord c)"
    using assms by (simp add: signed_of_nat signed_take_bit_int_eq_self)
  then show ?thesis
    by (simp add: py_chr_def to_int8_def ord_def)
qed

lemma py_chr_zero: "py_chr 0 = Inr (char_of (0 :: nat))"
  by (simp add: py_chr_def)

lemma collect_append_Inr:
  "collect xs = Inr a \<Longrightarrow> collect ys = Inr b \<Longrightarrow> collect (xs @ ys) = Inr (a @ b)"
  by (induction xs arbitrary: a) (auto split: sum.splits)

lemma decode_encoded_row:
  assumes "list_all (\<lambda>c. ord c < 128) line"
  shows "collect (map py_chr (encoded_row W line))
         = Inr (line @ replicate (W - length line) (char_of (0 :: nat)))"
proof -
  have "collect (map (\<lambda>c. py_chr (to_int8 (ord c))) line) = Inr (map (\<lambda>c. c) line)"
    using assms by (intro collect_map_Inr py_chr_ascii) (simp add: list_all_iff)
  moreover have "collect (map py_chr (replicate (W - length line) 0))
                 = Inr (map (\<lambda>_. char_of (0 :: nat)) (replicate (W - length line) (0 :: int8)))"
    by (intro collect_map_Inr) (simp add: py_chr_zero)
  ultimately show ?thesis
    using collect_append_Inr
      [of "map (\<lambda>c. py_chr (to_int8 (ord c))) line" line
          "map py_chr (replicate (W - length line) 0)"]
    by (simp add: encoded_row_def comp_def)
qed

lemma ascii_to_string_encoded:
  assumes "list_all (list_all (\<lambda>c. ord c < 128)) strings"
  shows "ascii_to_string (map (encoded_row W) strings)
         = Inr (map (filter (\<lambda>s. s \<noteq> char_of (0 :: nat))) strings)"
proof -
  have "(case collect (map py_chr (encoded_row W line)) of
           Inl e \<Rightarrow> Inl e
         | Inr chars \<Rightarrow> Inr (filter (\<lambda>s. s \<noteq> char_of (0 :: nat)) chars))
        = Inr (filter (\<lambda>s. s \<noteq> char_of (0 :: nat)) line)" if "line \<in> set strings" for line
  proof -
    from that assms have "list_all (\<lambda>c. ord c < 128) line" by (simp add: list_all_iff)
    from decode_encoded_row [OF this, of W] show ?thesis by simp
  qed
  then show ?thesis
    unfolding ascii_to_string_def map_map comp_def by (rule collect_map_Inr)
qed

lemma codec_general:
  assumes "list_all (list_all (\<lambda>c. ord c < 128)) strings"
    and "0 \<le> max_len" and "list_all (\<lambda>line. int (length line) \<le> max_len) strings"
  shows "string_to_ascii (Several strings) (Some max_len) = Inr (map (encoded_row (nat max_len)) strings)"
    and "ascii_to_string (map (encoded_row (nat max_len)) strings)
         = Inr (map (filter (\<lambda>s. s \<noteq> char_of (0 :: nat))) strings)"
  using string_to_ascii_ok [OF assms(2,3)] ascii_to_string_encoded [OF assms(1)] by simp_all

lemma filter_nonzero_id:
  assumes "list_all (\<lambda>c. 0 < ord c) line"
  shows "filter (\<lambda>s. s \<noteq> char_of (0 :: nat)) line = line"
proof -
  have "c \<noteq> char_of (0 :: nat)" if "c \<in> set line" for c
  proof
    assume "c = char_of (0 :: nat)"
    then have "ord c = 0" by (simp add: ord_def)
    with that assms show False by (auto simp: list_all_iff)
  qed
  then show ?thesis by (simp add: filter_id_conv)
qed

lemma py_chr_nonneg:
  "0 \<le> sint code \<Longrightarrow> py_chr code = Inr (char_of (nat (sint code)))"
  by (simp add: py_chr_def)

lemma chr_zero_iff:
  fixes code :: int8
  assumes "0 \<le> sint code"
  shows "char_of (nat (sint code)) = (char_of (0 :: nat) :: char) \<longleftrightarrow> code = 0"
proof
  assume eq: "char_of (nat (sint code)) = (char_of (0 :: nat) :: char)"
  have "sint code < 128"
    using sint_lt [of code] by simp
  with assms have small: "nat (sint code) < 256" by simp
  from eq have "of_char (char_of (nat (sint code)) :: char) = (of_char (char_of (0 :: nat) :: char) :: nat)"
    by simp
  with small have "nat (sint code) = 0" by (simp add: of_char_of)
  with assms have "sint code = 0" by simp
  then show "code = 0" by (simp only: signed_eq_0_iff)
next
  assume "code = 0"
  then show "char_of (nat (sint code)) = (char_of (0 :: nat) :: char)" by simp
qed

lemma decode_row_valid:
  assumes "list_all (\<lambda>code. 0 \<le> sint code) codes"
  shows "(case collect (map py_chr codes) of
           Inl e \<Rightarrow> Inl e
         | Inr chars \<Rightarrow> Inr (filter (\<lambda>s. s \<noteq> char_of (0 :: nat)) chars))
         = Inr (map (\<lambda>code. char_of (nat (sint code))) (filter (\<lambda>code. code \<noteq> 0) codes))"
proof -
  have "collect (map py_chr codes) = Inr (map (\<lambda>code. char_of (nat (sint code))) codes)"
    using assms by (intro collect_map_Inr py_chr_nonneg) (simp add: list_all_iff)
  moreover have "filter (\<lambda>s. s \<noteq> char_of (0 :: nat)) (map (\<lambda>code. char_of (nat (sint code))) codes)
                 = map (\<lambda>code. char_of (nat (sint code))) (filter (\<lambda>code. code \<noteq> 0) codes)"
    using assms
  proof (induction codes)
    case Nil
    then show ?case by simp
  next
    case (Cons code codes)
    then show ?case using chr_zero_iff [of code] by simp
  qed
  ultimately show ?thesis by simp
qed

lemma ascii_to_string_valid:
  assumes "list_all (list_all (\<lambda>code. 0 \<le> sint code)) ascii"
  shows "ascii_to_string ascii
         = Inr (map (\<lambda>codes. map (\<lambda>code. char_of (nat (sint code)))
                               (filter (\<lambda>code. code \<noteq> 0) codes)) ascii)"
  unfolding ascii_to_string_def
  using assms by (intro collect_map_Inr decode_row_valid) (simp add: list_all_iff)

lemma filter_zero_changes:
  assumes "list_ex (\<lambda>line. char_of (0 :: nat) \<in> set line) strings"
  shows "map (filter (\<lambda>s. s \<noteq> char_of (0 :: nat))) strings \<noteq> strings"
proof
  assume eq: "map (filter (\<lambda>s. s \<noteq> char_of (0 :: nat))) strings = strings"
  from assms obtain line where line: "line \<in> set strings" "char_of (0 :: nat) \<in> set line"
    by (auto simp: list_ex_iff)
  from eq have "map (filter (\<lambda>s. s \<noteq> char_of (0 :: nat))) strings = map (\<lambda>l. l) strings"
    by simp
  with line(1) have "filter (\<lambda>s. s \<noteq> char_of (0 :: nat)) line = line"
    by (simp only: map_eq_conv)
  then have "set (filter (\<lambda>s. s \<noteq> char_of (0 :: nat)) line) = set line" by simp
  with line(2) show False by auto
qed

section \<open>The claims about the string codec\<close>

text \<open>
  Claim C3.  For a list of strings whose characters all have a code from 1 to 127, each
  no longer than the maximum length \<open>max_len\<close>, encoding with \<^verbatim>\<open>string_to_ascii\<close> succeeds and
  decoding the array with \<^verbatim>\<open>ascii_to_string\<close> returns the list of strings unchanged.
\<close>

theorem codec_round_trip:
  assumes "list_all (list_all (\<lambda>c. 0 < ord c \<and> ord c < 128)) strings"
    and "0 \<le> max_len" and "list_all (\<lambda>line. int (length line) \<le> max_len) strings"
  shows "\<exists>encoded. string_to_ascii (Several strings) (Some max_len) = Inr encoded \<and>
                   ascii_to_string encoded = Inr strings"
proof -
  from assms(1) have ascii: "list_all (list_all (\<lambda>c. ord c < 128)) strings"
    and nonzero: "list_all (list_all (\<lambda>c. 0 < ord c)) strings"
    by (auto simp: list_all_iff)
  have "map (filter (\<lambda>s. s \<noteq> char_of (0 :: nat))) strings = map (\<lambda>line. line) strings"
    using nonzero by (intro map_cong refl filter_nonzero_id) (simp add: list_all_iff)
  with codec_general [OF ascii assms(2,3)] show ?thesis by simp
qed

theorem codec_round_trip_witness:
  "list_all (list_all (\<lambda>c. 0 < ord c \<and> ord c < 128)) [''ab'', ''c'', ''''] \<and>
   (0 :: int) \<le> 3 \<and>
   list_all (\<lambda>line. int (length line) \<le> 3) [''ab'', ''c'', ''''] \<and>
   string_to_ascii (Several [''ab'', ''c'', '''']) (Some 3)
     = Inr [[97, 98, 0], [99, 0, 0], [0, 0, 0]] \<and>
   ascii_to_string [[97, 98, 0], [99, 0, 0], [0, 0, 0]] = Inr [''ab'', ''c'', '''']"
proof -
  have h1: "list_all (list_all (\<lambda>c. 0 < ord c \<and> ord c < 128)) [''ab'', ''c'', '''']"
    by (simp add: ord_def)
  have h2: "(0 :: int) \<le> 3" by simp
  have h3: "list_all (\<lambda>line. int (length line) \<le> 3) [''ab'', ''c'', '''']" by simp
  have enc: "string_to_ascii (Several [''ab'', ''c'', '''']) (Some 3)
     = Inr [[97, 98, 0], [99, 0, 0], [0, 0, 0]]"
    by code_simp
  have dec: "ascii_to_string [[97, 98, 0], [99, 0, 0], [0, 0, 0]] = Inr [''ab'', ''c'', '''']"
    by code_simp
  from codec_round_trip [OF h1 h2 h3] h1 h2 h3 enc dec show ?thesis
    by simp
qed

text \<open>
  Claim C4.  For a list of ASCII strings (codes 0 to 127) and two maximum lengths
  \<open>L1 \<le> L2\<close>, \<open>L1\<close> at least the length of every string, both encodings succeed and decode
  to the same list of strings.
\<close>

theorem decoding_stable_at_larger_max_len:
  assumes "list_all (list_all (\<lambda>c. ord c < 128)) strings"
    and "0 \<le> L1" and "list_all (\<lambda>line. int (length line) \<le> L1) strings" and "L1 \<le> L2"
  shows "\<exists>e1 e2 decoded.
           string_to_ascii (Several strings) (Some L1) = Inr e1 \<and>
           string_to_ascii (Several strings) (Some L2) = Inr e2 \<and>
           ascii_to_string e1 = Inr decoded \<and> ascii_to_string e2 = Inr decoded"
proof -
  from assms(2,4) have L2: "0 \<le> L2" by simp
  from assms(3,4) have len2: "list_all (\<lambda>line. int (length line) \<le> L2) strings"
    by (auto simp: list_all_iff)
  from codec_general [OF assms(1,2,3)] codec_general [OF assms(1) L2 len2] show ?thesis
    by blast
qed

theorem decoding_stable_at_larger_max_len_witness:
  "list_all (list_all (\<lambda>c. ord c < 128)) [''ab'', ''c''] \<and>
   (0 :: int) \<le> 2 \<and> list_all (\<lambda>line. int (length line) \<le> 2) [''ab'', ''c''] \<and> (2 :: int) \<le> 4 \<and>
   string_to_ascii (Several [''ab'', ''c'']) (Some 2) = Inr [[97, 98], [99, 0]] \<and>
   string_to_ascii (Several [''ab'', ''c'']) (Some 4) = Inr [[97, 98, 0, 0], [99, 0, 0, 0]] \<and>
   ascii_to_string [[97, 98], [99, 0]] = Inr [''ab'', ''c''] \<and>
   ascii_to_string [[97, 98, 0, 0], [99, 0, 0, 0]] = Inr [''ab'', ''c'']"
proof -
  have h1: "list_all (list_all (\<lambda>c. ord c < 128)) [''ab'', ''c'']"
    by (simp add: ord_def)
  have h2: "(0 :: int) \<le> 2" by simp
  have h3: "list_all (\<lambda>line. int (length line) \<le> 2) [''ab'', ''c'']" by simp
  have h4: "(2 :: int) \<le> 4" by simp
  have e1: "string_to_ascii (Several [''ab'', ''c'']) (Some 2) = Inr [[97, 98], [99, 0]]"
    by code_simp
  have e2: "string_to_ascii (Several [''ab'', ''c'']) (Some 4) = Inr [[97, 98, 0, 0], [99, 0, 0, 0]]"
    by code_simp
  have d1: "ascii_to_string [[97, 98], [99, 0]] = Inr [''ab'', ''c'']"
    by code_simp
  have d2: "ascii_to_string [[97, 98, 0, 0], [99, 0, 0, 0]] = Inr [''ab'', ''c'']"
    by code_simp
  from decoding_stable_at_larger_max_len [OF h1 h2 h3 h4] h1 h2 h3 h4 e1 e2 d1 d2 show ?thesis
    by simp
qed

text \<open>
  Claim C9.  \<^verbatim>\<open>ascii_to_string\<close> removes every zero code of a row, wherever it stands:
  on rows of codes that \<^verbatim>\<open>chr\<close> accepts, the decoded string is made of the characters of
  the non-zero codes, in order.  So for ASCII strings (codes 0 to 127) of which one holds
  the null character, encoding and decoding returns the strings without their null
  characters, which is not the list that was encoded.
\<close>

theorem ascii_to_string_removes_every_zero:
  "(list_all (list_all (\<lambda>code. 0 \<le> sint code)) ascii \<longrightarrow>
      ascii_to_string ascii
      = Inr (map (\<lambda>codes. map (\<lambda>code. char_of (nat (sint code)))
                            (filter (\<lambda>code. code \<noteq> 0) codes)) ascii)) \<and>
   (list_all (list_all (\<lambda>c. ord c < 128)) strings \<and> 0 \<le> max_len \<and>
    list_all (\<lambda>line. int (length line) \<le> max_len) strings \<and>
    list_ex (\<lambda>line. char_of (0 :: nat) \<in> set line) strings \<longrightarrow>
      (\<exists>encoded decoded.
          string_to_ascii (Several strings) (Some max_len) = Inr encoded \<and>
          ascii_to_string encoded = Inr decoded \<and>
          decoded = map (filter (\<lambda>s. s \<noteq> char_of (0 :: nat))) strings \<and>
          decoded \<noteq> strings))"
proof (intro conjI impI)
  assume "list_all (list_all (\<lambda>code. 0 \<le> sint code)) ascii"
  then show "ascii_to_string ascii
      = Inr (map (\<lambda>codes. map (\<lambda>code. char_of (nat (sint code)))
                            (filter (\<lambda>code. code \<noteq> 0) codes)) ascii)"
    by (rule ascii_to_string_valid)
next
  assume h: "list_all (list_all (\<lambda>c. ord c < 128)) strings \<and> 0 \<le> max_len \<and>
    list_all (\<lambda>line. int (length line) \<le> max_len) strings \<and>
    list_ex (\<lambda>line. char_of (0 :: nat) \<in> set line) strings"
  then have a: "list_all (list_all (\<lambda>c. ord c < 128)) strings" and b: "0 \<le> max_len"
    and c: "list_all (\<lambda>line. int (length line) \<le> max_len) strings"
    and d: "list_ex (\<lambda>line. char_of (0 :: nat) \<in> set line) strings"
    by simp_all
  from codec_general [OF a b c] filter_zero_changes [OF d]
  show "\<exists>encoded decoded.
          string_to_ascii (Several strings) (Some max_len) = Inr encoded \<and>
          ascii_to_string encoded = Inr decoded \<and>
          decoded = map (filter (\<lambda>s. s \<noteq> char_of (0 :: nat))) strings \<and>
          decoded \<noteq> strings"
    by blast
qed

theorem ascii_to_string_removes_every_zero_witness:
  "list_all (list_all (\<lambda>code. 0 \<le> sint code)) [[97, 0, 98, 0 :: int8]] \<and>
   ascii_to_string [[97, 0, 98, 0]] = Inr [''ab''] \<and>
   list_all (list_all (\<lambda>c. ord c < 128)) [[CHR ''a'', CHR 0x00, CHR ''b'']] \<and> (0 :: int) \<le> 4 \<and>
   list_all (\<lambda>line. int (length line) \<le> 4) [[CHR ''a'', CHR 0x00, CHR ''b'']] \<and>
   list_ex (\<lambda>line. char_of (0 :: nat) \<in> set line) [[CHR ''a'', CHR 0x00, CHR ''b'']] \<and>
   string_to_ascii (Several [[CHR ''a'', CHR 0x00, CHR ''b'']]) (Some 4) = Inr [[97, 0, 98, 0]] \<and>
   [''ab''] \<noteq> [[CHR ''a'', CHR 0x00, CHR ''b'']]"
proof -
  have h1: "list_all (list_all (\<lambda>code. 0 \<le> sint code)) [[97, 0, 98, 0 :: int8]]"
    by simp
  have h2: "list_all (list_all (\<lambda>c. ord c < 128)) [[CHR ''a'', CHR 0x00, CHR ''b'']]"
    by (simp add: ord_def)
  have h3: "(0 :: int) \<le> 4" by simp
  have h4: "list_all (\<lambda>line. int (length line) \<le> 4) [[CHR ''a'', CHR 0x00, CHR ''b'']]" by simp
  have h5: "list_ex (\<lambda>line. char_of (0 :: nat) \<in> set line) [[CHR ''a'', CHR 0x00, CHR ''b'']]"
    by code_simp
  have enc: "string_to_ascii (Several [[CHR ''a'', CHR 0x00, CHR ''b'']]) (Some 4) = Inr [[97, 0, 98, 0]]"
    by code_simp
  have dec: "ascii_to_string [[97, 0, 98, 0]] = Inr [''ab'']"
    by code_simp
  have ne: "[''ab''] \<noteq> [[CHR ''a'', CHR 0x00, CHR ''b'']]" by simp
  from ascii_to_string_removes_every_zero
         [of "[[97, 0, 98, 0]]" "[[CHR ''a'', CHR 0x00, CHR ''b'']]" 4]
       h1 h2 h3 h4 h5 enc dec ne
  show ?thesis by simp
qed

section \<open>Properties of the exponential moving average\<close>

lemma in_place_form:
  "length s = length x \<Longrightarrow>
   map2 (-) s (tensor_scale (1 - d) (map2 (-) s x)) = ema_formula d s x"
  unfolding tensor_scale_def ema_formula_def
  by (induction s x rule: list_induct2) (simp_all add: algebra_simps)

lemma update_param_frame:
  assumes "update_param self name x h = (r, h')" and "h' a \<noteq> h a"
  shows "shadow self name = Some a"
  using assms
  by (auto simp: update_param_def split: option.splits sum.splits if_splits)

lemma update_each_frame:
  assumes "update_each self ps h = (r, h')" and "h' a \<noteq> h a"
  shows "\<exists>name q. (name, q) \<in> set ps \<and> shadow self name = Some a"
  using assms
proof (induction ps arbitrary: h)
  case Nil
  then show ?case by simp
next
  case (Cons np ps)
  obtain name p where np: "np = (name, p)" by (cases np)
  show ?case
  proof (cases "shadow self name \<noteq> None")
    case False
    with Cons.prems np have "update_each self ps h = (r, h')" by simp
    from Cons.IH [OF this Cons.prems(2)] show ?thesis by auto
  next
    case True
    obtain r1 h1 where step: "update_param self name (data p) h = (r1, h1)"
      by (cases "update_param self name (data p) h")
    show ?thesis
    proof (cases "h1 a = h a")
      case False
      with update_param_frame [OF step] have "shadow self name = Some a" by simp
      with np show ?thesis by auto
    next
      case same: True
      show ?thesis
      proof (cases r1)
        case (Some e)
        with Cons.prems(1) np True step have "h' = h1" by simp
        with same Cons.prems(2) show ?thesis by simp
      next
        case None
        with Cons.prems(1) np True step have rest: "update_each self ps h1 = (r, h')" by simp
        from Cons.prems(2) same have "h' a \<noteq> h1 a" by simp
        from Cons.IH [OF rest this] show ?thesis by auto
      qed
    qed
  qed
qed

lemma update_params_changes:
  assumes "update_params self other_model h = (r, h')" and "h' a \<noteq> h a"
  shows "\<exists>name q. (name, q) \<in> set (named_parameters other_model) \<and> shadow self name = Some a"
proof (cases "ident other_model = ident (model self)")
  case True
  with assms show ?thesis by (simp add: update_params_def)
next
  case False
  with assms(1) have "update_each self (named_parameters other_model) h = (r, h')"
    by (simp add: update_params_def)
  from update_each_frame [OF this assms(2)] show ?thesis .
qed

lemma shadow_fold_origin:
  assumes "fold (\<lambda>(name, p) sh. if requires_grad p then sh(name \<mapsto> data p) else sh) ps sh0 name = Some a"
  shows "sh0 name = Some a \<or> (\<exists>p. (name, p) \<in> set ps \<and> requires_grad p \<and> data p = a)"
  using assms
proof (induction ps arbitrary: sh0)
  case Nil
  then show ?case by simp
next
  case (Cons np ps)
  obtain n p where np: "np = (n, p)" by (cases np)
  let ?sh1 = "if requires_grad p then sh0(n \<mapsto> data p) else sh0"
  from Cons.prems np have "fold (\<lambda>(name, p) sh. if requires_grad p then sh(name \<mapsto> data p) else sh) ps ?sh1 name = Some a"
    by simp
  from Cons.IH [OF this] have "?sh1 name = Some a \<or> (\<exists>p. (name, p) \<in> set ps \<and> requires_grad p \<and> data p = a)" .
  then show ?case
    using np by (auto split: if_splits)
qed

lemma shadow_registered:
  assumes "shadow (ema_init m d) name = Some a"
  shows "\<exists>p. (name, p) \<in> set (named_parameters m) \<and> requires_grad p \<and> data p = a"
  using shadow_fold_origin [of "named_parameters m" Map.empty name a] assms
  by (simp add: ema_init_def)

section \<open>The claims about the exponential moving average\<close>

text \<open>
  Claim C8.  For a name registered in the shadow and a current parameter value \<open>x\<close> of the
  shape of the shadow value \<open>s\<close>, one call of \<^verbatim>\<open>_update_param\<close> raises nothing and replaces
  \<open>s\<close>, and no other tensor, by \<open>decay * s + (1 - decay) * x\<close>: the in-place form
  \<open>s - (1 - decay) * (s - x)\<close> of the code equals it in exact arithmetic, for every decay.
\<close>

theorem update_param_is_ema_step:
  assumes "shadow self name = Some a" and "length (h x) = length (h a)"
  shows "update_param self name x h = (None, h(a := ema_formula (decay self) (h a) (h x)))"
proof -
  have sub: "tensor_sub (h a) (h x) = Inr (map2 (-) (h a) (h x))"
    using assms(2) by (simp add: tensor_sub_def)
  have "length (h a) = length (tensor_scale (1 - decay self) (map2 (-) (h a) (h x)))"
    using assms(2) by (simp add: tensor_scale_def)
  then have isub: "tensor_isub (h a) (tensor_scale (1 - decay self) (map2 (-) (h a) (h x)))
             = Inr (map2 (-) (h a) (tensor_scale (1 - decay self) (map2 (-) (h a) (h x))))"
    by (simp add: tensor_isub_def)
  have "map2 (-) (h a) (tensor_scale (1 - decay self) (map2 (-) (h a) (h x)))
        = ema_formula (decay self) (h a) (h x)"
    using assms(2) by (intro in_place_form) simp
  with sub isub assms(1) show ?thesis
    by (simp add: update_param_def)
qed

theorem update_param_is_ema_step_witness:
  "shadow \<lparr>model = \<lparr>ident = 0, named_parameters = [(''w'', \<lparr>data = 0, requires_grad = True\<rparr>)]\<rparr>,
           decay = 3 / 4, shadow = [''w'' \<mapsto> 0]\<rparr> ''w'' = Some 0 \<and>
   length (((\<lambda>_. []) (0 := [4, 8], 1 := [8, 0 :: real])) 1)
     = length (((\<lambda>_. []) (0 := [4, 8], 1 := [8, 0 :: real])) 0) \<and>
   update_param \<lparr>model = \<lparr>ident = 0, named_parameters = [(''w'', \<lparr>data = 0, requires_grad = True\<rparr>)]\<rparr>,
                 decay = 3 / 4, shadow = [''w'' \<mapsto> 0]\<rparr> ''w'' 1
       ((\<lambda>_. []) (0 := [4, 8], 1 := [8, 0]))
     = (None, (\<lambda>_. []) (0 := [5, 6], 1 := [8, 0]))"
proof -
  let ?self = "\<lparr>model = \<lparr>ident = 0, named_parameters = [(''w'', \<lparr>data = 0, requires_grad = True\<rparr>)]\<rparr>,
                decay = 3 / 4, shadow = [''w'' \<mapsto> 0]\<rparr>"
  let ?h = "(\<lambda>_. []) (0 := [4, 8], 1 := [8, 0 :: real]) :: store"
  have h1: "shadow ?self ''w'' = Some 0" by simp
  have h2: "length (?h 1) = length (?h 0)" by simp
  have "update_param ?self ''w'' 1 ?h = (None, ?h(0 := ema_formula (decay ?self) (?h 0) (?h 1)))"
    by (rule update_param_is_ema_step [OF h1 h2])
  moreover have "ema_formula (decay ?self) (?h 0) (?h 1) = [5, 6]"
    by (simp add: ema_formula_def)
  moreover have "?h(0 := [5, 6]) = (\<lambda>_. []) (0 := [5, 6], 1 := [8, 0])"
    by (simp add: fun_eq_iff)
  ultimately show ?thesis using h1 h2 by simp
qed

text \<open>
  Claim C10, as amended.  Let the helper be built on the model \<open>m\<close>, and let
  \<^verbatim>\<open>update_params\<close> on \<open>other_model\<close> leave the store \<open>h'\<close>, with or without an exception.
  A tensor that it changed is a shadow entry registered at construction: the tensor of a
  parameter of \<open>m\<close> that requires a gradient, under a name that \<open>other_model\<close> has too.
  So a parameter of \<open>other_model\<close> whose tensor is not also a tensor of \<open>m\<close> is left as it
  was; and a parameter of \<open>m\<close> whose name is not in the shadow, or not among the names of
  \<open>other_model\<close>, is left as it was, provided no parameter of \<open>m\<close> under another name shares
  its tensor.  The provisos are needed: the shadow aliases the tensors, and the method
  checks only that the two models are not one object.
\<close>

theorem update_params_frame:
  assumes "update_params (ema_init m d) other_model h = (r, h')"
  shows "(\<forall>a. h' a \<noteq> h a \<longrightarrow>
            (\<exists>name p q. (name, p) \<in> set (named_parameters m) \<and> requires_grad p \<and> data p = a \<and>
                        shadow (ema_init m d) name = Some a \<and>
                        (name, q) \<in> set (named_parameters other_model))) \<and>
         (\<forall>(name, q) \<in> set (named_parameters other_model).
            data q \<notin> tensors m \<longrightarrow> h' (data q) = h (data q)) \<and>
         (\<forall>(name, p) \<in> set (named_parameters m).
            (shadow (ema_init m d) name = None \<or> name \<notin> fst ` set (named_parameters other_model)) \<and>
            (\<forall>(name', p') \<in> set (named_parameters m). data p' = data p \<longrightarrow> name' = name)
            \<longrightarrow> h' (data p) = h (data p))"
proof -
  have changed: "\<exists>name p q. (name, p) \<in> set (named_parameters m) \<and> requires_grad p \<and> data p = a \<and>
                        shadow (ema_init m d) name = Some a \<and>
                        (name, q) \<in> set (named_parameters other_model)" if "h' a \<noteq> h a" for a
  proof -
    from update_params_changes [OF assms that]
    obtain name q where q: "(name, q) \<in> set (named_parameters other_model)"
      and sh: "shadow (ema_init m d) name = Some a" by blast
    from shadow_registered [OF sh] q sh show ?thesis by blast
  qed
  have other: "h' (data q) = h (data q)"
    if sep: "data q \<notin> tensors m" and q: "(name, q) \<in> set (named_parameters other_model)"
    for name q
  proof (rule ccontr)
    assume "h' (data q) \<noteq> h (data q)"
    from changed [OF this] obtain n p where "(n, p) \<in> set (named_parameters m)" and "data p = data q"
      by blast
    then have "data q \<in> tensors m" by (force simp: tensors_def)
    with sep show False by simp
  qed
  have own: "h' (data p) = h (data p)"
    if alone: "\<forall>(name', p') \<in> set (named_parameters m). data p' = data p \<longrightarrow> name' = name"
      and absent: "shadow (ema_init m d) name = None \<or> name \<notin> fst ` set (named_parameters other_model)"
    for name p
  proof (rule ccontr)
    assume "h' (data p) \<noteq> h (data p)"
    from changed [OF this] obtain n p' q where p': "(n, p') \<in> set (named_parameters m)"
      and same: "data p' = data p" and sh: "shadow (ema_init m d) n = Some (data p)"
      and q: "(n, q) \<in> set (named_parameters other_model)" by blast
    from alone p' same have "n = name" by blast
    with sh q absent show False by force
  qed
  from changed other own show ?thesis by blast
qed

theorem update_params_frame_witness:
  "update_params
     (ema_init \<lparr>ident = 0, named_parameters =
                  [(''w'', \<lparr>data = 0, requires_grad = True\<rparr>),
                   (''b'', \<lparr>data = 1, requires_grad = False\<rparr>),
                   (''v'', \<lparr>data = 4, requires_grad = True\<rparr>)]\<rparr> (1 / 2))
     \<lparr>ident = 1, named_parameters =
        [(''w'', \<lparr>data = 2, requires_grad = True\<rparr>), (''b'', \<lparr>data = 3, requires_grad = True\<rparr>)]\<rparr>
     ((\<lambda>_. []) (0 := [1], 1 := [5], 2 := [3], 3 := [7], 4 := [9]))
   = (None, ((\<lambda>_. []) (0 := [1], 1 := [5], 2 := [3], 3 := [7], 4 := [9])) (0 := [2])) \<and>
   2 \<notin> tensors \<lparr>ident = 0, named_parameters =
                  [(''w'', \<lparr>data = 0, requires_grad = True\<rparr>),
                   (''b'', \<lparr>data = 1, requires_grad = False\<rparr>),
                   (''v'', \<lparr>data = 4, requires_grad = True\<rparr>)]\<rparr> \<and>
   3 \<notin> tensors \<lparr>ident = 0, named_parameters =
                  [(''w'', \<lparr>data = 0, requires_grad = True\<rparr>),
                   (''b'', \<lparr>data = 1, requires_grad = False\<rparr>),
                   (''v'', \<lparr>data = 4, requires_grad = True\<rparr>)]\<rparr> \<and>
   shadow (ema_init \<lparr>ident = 0, named_parameters =
                  [(''w'', \<lparr>data = 0, requires_grad = True\<rparr>),
                   (''b'', \<lparr>data = 1, requires_grad = False\<rparr>),
                   (''v'', \<lparr>data = 4, requires_grad = True\<rparr>)]\<rparr> (1 / 2)) ''b'' = None"
proof -
  let ?m = "\<lparr>ident = 0, named_parameters =
                  [(''w'', \<lparr>data = 0, requires_grad = True\<rparr>),
                   (''b'', \<lparr>data = 1, requires_grad = False\<rparr>),
                   (''v'', \<lparr>data = 4, requires_grad = True\<rparr>)]\<rparr>"
  let ?other = "\<lparr>ident = 1, named_parameters =
        [(''w'', \<lparr>data = 2, requires_grad = True\<rparr>), (''b'', \<lparr>data = 3, requires_grad = True\<rparr>)]\<rparr>"
  let ?h = "(\<lambda>_. []) (0 := [1], 1 := [5], 2 := [3], 3 := [7], 4 := [9 :: real]) :: store"
  have ev: "update_params (ema_init ?m (1 / 2)) ?other ?h = (None, ?h(0 := [2]))"
    by (simp add: update_params_def ema_init_def update_param_def tensor_sub_def tensor_isub_def
        tensor_scale_def)
  have sep: "2 \<notin> tensors ?m" "3 \<notin> tensors ?m"
    by (simp_all add: tensors_def)
  have frozen: "shadow (ema_init ?m (1 / 2)) ''b'' = None"
    by (simp add: ema_init_def)
  from update_params_frame [OF ev] ev sep frozen show ?thesis
    by simp
qed

text \<open>
  The claim as it was stated, that a call never changes a parameter of \<open>other_model\<close>,
  fails where \<open>other_model\<close> holds a tensor of the averaged model under another name.
  The averaged model has the parameter \<open>w\<close> in tensor 0; \<open>other_model\<close> has \<open>w\<close> in tensor
  2 and \<open>u\<close> in tensor 0.  The call updates the shadow entry \<open>w\<close>, which is tensor 0, from
  tensor 2, and so changes the parameter \<open>u\<close> of \<open>other_model\<close> from \<open>[1]\<close> to \<open>[2]\<close>.
\<close>

theorem update_params_changes_shared_parameter:
  "update_params
     (ema_init \<lparr>ident = 0, named_parameters = [(''w'', \<lparr>data = 0, requires_grad = True\<rparr>)]\<rparr> (1 / 2))
     \<lparr>ident = 1, named_parameters =
        [(''w'', \<lparr>data = 2, requires_grad = True\<rparr>), (''u'', \<lparr>data = 0, requires_grad = True\<rparr>)]\<rparr>
     ((\<lambda>_. []) (0 := [1], 2 := [3]))
   = (None, ((\<lambda>_. []) (0 := [1], 2 := [3])) (0 := [2])) \<and>
   (''u'', \<lparr>data = 0, requires_grad = True\<rparr>)
     \<in> set (named_parameters \<lparr>ident = 1, named_parameters =
        [(''w'', \<lparr>data = 2, requires_grad = True\<rparr>), (''u'', \<lparr>data = 0, requires_grad = True\<rparr>)]\<rparr>) \<and>
   (((\<lambda>_. []) (0 := [1], 2 := [3 :: real])) (0 := [2])) 0 \<noteq> ((\<lambda>_. []) (0 := [1], 2 := [3])) 0"
  by (simp add: update_params_def ema_init_def update_param_def tensor_sub_def tensor_isub_def
      tensor_scale_def)

end
